theory Spec2Isabelle
  imports Complex_Main
begin

section \<open>Samples: floating-point values with their special values\<close>

text \<open>
  The operators of \<^verbatim>\<open>noisemaker/effects.py\<close> work on arrays of floating-point
  samples. A sample is a real number or one of the three special values of IEEE
  arithmetic. Division by zero and the propagation of NaN are modelled. Arithmetic on
  finite samples is exact: rounding and the sign of zero are not modelled. The range of
  float32 is modelled in \<open>normalize_tensor\<close>, whose claims depend on it: there every
  result passes \<open>to_float32\<close>.
\<close>

datatype sample = Fin real | PosInf | NegInf | NaN

fun fneg :: "sample \<Rightarrow> sample" where
  "fneg (Fin a) = Fin (- a)"
| "fneg PosInf = NegInf"
| "fneg NegInf = PosInf"
| "fneg NaN = NaN"

fun fadd :: "sample \<Rightarrow> sample \<Rightarrow> sample" where
  "fadd NaN y = NaN"
| "fadd x NaN = NaN"
| "fadd (Fin a) (Fin b) = Fin (a + b)"
| "fadd PosInf NegInf = NaN"
| "fadd NegInf PosInf = NaN"
| "fadd PosInf y = PosInf"
| "fadd NegInf y = NegInf"
| "fadd (Fin a) y = y"

definition fsub :: "sample \<Rightarrow> sample \<Rightarrow> sample" where
  "fsub x y = fadd x (fneg y)"

text \<open>The infinity with the sign of a real number; of zero taken as positive.\<close>

definition signed_inf :: "real \<Rightarrow> sample" where
  "signed_inf a = (if 0 \<le> a then PosInf else NegInf)"

fun fmul :: "sample \<Rightarrow> sample \<Rightarrow> sample" where
  "fmul NaN y = NaN"
| "fmul x NaN = NaN"
| "fmul (Fin a) (Fin b) = Fin (a * b)"
| "fmul (Fin a) PosInf = (if a = 0 then NaN else signed_inf a)"
| "fmul (Fin a) NegInf = (if a = 0 then NaN else signed_inf (- a))"
| "fmul PosInf (Fin b) = (if b = 0 then NaN else signed_inf b)"
| "fmul NegInf (Fin b) = (if b = 0 then NaN else signed_inf (- b))"
| "fmul PosInf PosInf = PosInf"
| "fmul NegInf NegInf = PosInf"
| "fmul PosInf NegInf = NegInf"
| "fmul NegInf PosInf = NegInf"

text \<open>
  Division, as \<^verbatim>\<open>tf.divide\<close> performs it on floating-point operands: nothing is
  raised, \<open>0 / 0\<close> is NaN and a nonzero finite value over zero is an infinity.
\<close>

fun fdiv :: "sample \<Rightarrow> sample \<Rightarrow> sample" where
  "fdiv NaN y = NaN"
| "fdiv x NaN = NaN"
| "fdiv (Fin a) (Fin b) =
     (if b = 0 then (if a = 0 then NaN else if 0 < a then PosInf else NegInf)
      else Fin (a / b))"
| "fdiv (Fin a) y = Fin 0"
| "fdiv PosInf (Fin b) = signed_inf b"
| "fdiv NegInf (Fin b) = signed_inf (- b)"
| "fdiv x y = NaN"

text \<open>The comparison \<open>x < y\<close>: false as soon as one side is NaN.\<close>

fun fless :: "sample \<Rightarrow> sample \<Rightarrow> bool" where
  "fless NaN y = False"
| "fless x NaN = False"
| "fless (Fin a) (Fin b) = (a < b)"
| "fless x NegInf = False"
| "fless NegInf y = True"
| "fless PosInf y = False"
| "fless (Fin a) PosInf = True"

text \<open>\<^verbatim>\<open>tf.maximum(x, y)\<close> is documented as \<open>x > y ? x : y\<close>.\<close>

definition tf_maximum :: "sample \<Rightarrow> sample \<Rightarrow> sample" where
  "tf_maximum x y = (if fless y x then x else y)"

text \<open>
  The minimum and the maximum that propagate NaN, as \<^verbatim>\<open>np.minimum\<close>,
  \<^verbatim>\<open>np.maximum\<close> and the reductions \<^verbatim>\<open>tf.reduce_min\<close> and
  \<^verbatim>\<open>tf.reduce_max\<close> do.
\<close>

definition np_minimum :: "sample \<Rightarrow> sample \<Rightarrow> sample" where
  "np_minimum x y =
     (case x of NaN \<Rightarrow> NaN | _ \<Rightarrow> (case y of NaN \<Rightarrow> NaN | _ \<Rightarrow> if fless y x then y else x))"

definition np_maximum :: "sample \<Rightarrow> sample \<Rightarrow> sample" where
  "np_maximum x y =
     (case x of NaN \<Rightarrow> NaN | _ \<Rightarrow> (case y of NaN \<Rightarrow> NaN | _ \<Rightarrow> if fless x y then y else x))"

text \<open>
  The range of float32. The largest float32 is \<open>2^128 - 2^104\<close>; a result whose
  magnitude reaches \<open>2^128 - 2^103\<close>, half a unit in the last place above it, is
  rounded to an infinity.
\<close>

definition float32_overflow :: real where
  "float32_overflow = 2 ^ 128 - 2 ^ 103"

definition to_float32 :: "sample \<Rightarrow> sample" where
  "to_float32 s =
     (case s of
        Fin v \<Rightarrow> if float32_overflow \<le> v then PosInf
                 else if v \<le> - float32_overflow then NegInf
                 else Fin v
      | _ \<Rightarrow> s)"

text \<open>\<^verbatim>\<open>tf.subtract\<close> and \<^verbatim>\<open>tf.divide\<close> with a float32 result.\<close>

definition fsub32 :: "sample \<Rightarrow> sample \<Rightarrow> sample" where
  "fsub32 x y = to_float32 (fsub x y)"

definition fdiv32 :: "sample \<Rightarrow> sample \<Rightarrow> sample" where
  "fdiv32 x y = to_float32 (fdiv x y)"

section \<open>Image tensors\<close>

text \<open>
  An image tensor is a dense array with axes (height, width, channels): a list of rows,
  each a list of pixels, each a list of channel samples.
\<close>

type_synonym pixel = "sample list"
type_synonym tensor = "sample list list list"

text \<open>
  \<^verbatim>\<open>tf.shape(tensor).eval()\<close>, read off the nested list. Below a dimension that
  is 0 the nested list keeps no lengths, and the later dimensions read as 0.
\<close>

definition shape :: "'a list list list \<Rightarrow> nat \<times> nat \<times> nat" where
  "shape t =
     (length t,
      (case t of [] \<Rightarrow> 0 | row # _ \<Rightarrow> length row),
      (case t of [] \<Rightarrow> 0 | row # _ \<Rightarrow> (case row of [] \<Rightarrow> 0 | px # _ \<Rightarrow> length px)))"

text \<open>An array is rectangular: every row has the width and every pixel the channel count.\<close>

definition has_shape :: "nat \<Rightarrow> nat \<Rightarrow> nat \<Rightarrow> 'a list list list \<Rightarrow> bool" where
  "has_shape h w c t =
     (length t = h \<and> list_all (\<lambda>row. length row = w \<and> list_all (\<lambda>px. length px = c) row) t)"

text \<open>An image tensor proper: rectangular, with all three dimensions positive.\<close>

definition image_tensor :: "'a list list list \<Rightarrow> bool" where
  "image_tensor t =
     (case shape t of (h, w, c) \<Rightarrow> 0 < h \<and> 0 < w \<and> 0 < c \<and> has_shape h w c t)"

text \<open>An elementwise operation on every sample of a tensor.\<close>

definition tmap :: "('a \<Rightarrow> 'b) \<Rightarrow> 'a list list list \<Rightarrow> 'b list list list" where
  "tmap f t = map (map (map f)) t"

text \<open>An elementwise operation on two tensors of the same shape.\<close>

definition tmap2 :: "('a \<Rightarrow> 'b \<Rightarrow> 'c) \<Rightarrow> 'a list list list \<Rightarrow> 'b list list list \<Rightarrow> 'c list list list" where
  "tmap2 f s t = map2 (map2 (map2 f)) s t"

text \<open>All samples of a tensor, in storage order.\<close>

definition flat :: "'a list list list \<Rightarrow> 'a list" where
  "flat t = concat (concat t)"

text \<open>The tensor of a given shape that holds one value everywhere.\<close>

definition const_tensor :: "nat \<Rightarrow> nat \<Rightarrow> nat \<Rightarrow> 'a \<Rightarrow> 'a list list list" where
  "const_tensor h w c v = replicate h (replicate w (replicate c v))"

text \<open>A tensor of finite samples, given by its real values.\<close>

definition of_reals :: "real list list list \<Rightarrow> tensor" where
  "of_reals r = tmap Fin r"

text \<open>
  \<^verbatim>\<open>tf.reduce_min\<close> and \<^verbatim>\<open>tf.reduce_max\<close> over all axes: the running
  minimum (maximum) of all samples, starting from the neutral element; a NaN among the
  samples is the result.
\<close>

definition reduce_min :: "tensor \<Rightarrow> sample" where
  "reduce_min t = fold (\<lambda>x acc. np_minimum acc x) (flat t) PosInf"

definition reduce_max :: "tensor \<Rightarrow> sample" where
  "reduce_max t = fold (\<lambda>x acc. np_maximum acc x) (flat t) NegInf"

section \<open>TensorOps: normalize and crease\<close>

text \<open>
  \<^verbatim>\<open>
  def normalize(tensor):
      return tf.divide(
          tf.subtract(tensor, tf.reduce_min(tensor)),
          tf.subtract(tf.reduce_max(tensor), tf.reduce_min(tensor))
      )
  \<close>
\<close>

text \<open>The model of \<^verbatim>\<open>normalize\<close> is named \<open>normalize_tensor\<close>.\<close>

definition normalize_tensor :: "tensor \<Rightarrow> tensor" where
  "normalize_tensor tensor =
     tmap (\<lambda>x. fdiv32 x (fsub32 (reduce_max tensor) (reduce_min tensor)))
       (tmap (\<lambda>x. fsub32 x (reduce_min tensor)) tensor)"

text \<open>\<^verbatim>\<open>tf.ones(shape)\<close>.\<close>

definition tf_ones :: "nat \<times> nat \<times> nat \<Rightarrow> tensor" where
  "tf_ones s = (case s of (h, w, c) \<Rightarrow> const_tensor h w c (Fin 1))"

text \<open>
  \<^verbatim>\<open>
  def crease(tensor):
      temp = tf.subtract(tensor, .5)
      temp = tf.multiply(temp, 2)
      temp = tf.maximum(temp, temp*-1)
      temp = tf.subtract(tf.ones(tf.shape(temp)), temp)
      return temp
  \<close>
\<close>

definition crease :: "tensor \<Rightarrow> tensor" where
  "crease tensor =
     (let temp = tmap (\<lambda>x. fsub x (Fin (1/2))) tensor;
          temp = tmap (\<lambda>x. fmul x (Fin 2)) temp;
          temp = tmap2 tf_maximum temp (tmap (\<lambda>x. fmul x (Fin (- 1))) temp);
          temp = tmap2 fsub (tf_ones (shape temp)) temp
      in temp)"

section \<open>Errors and Python's integer operations\<close>

text \<open>The exceptions a call can end with.\<close>

datatype error = ValueError | TypeError | OverflowError | ZeroDivisionError | IndexError

definition bind :: "error + 'a \<Rightarrow> ('a \<Rightarrow> error + 'b) \<Rightarrow> error + 'b" where
  "bind m f = (case m of Inl e \<Rightarrow> Inl e | Inr x \<Rightarrow> f x)"

text \<open>\<^verbatim>\<open>int(v)\<close> of a finite float: truncation towards zero.\<close>

definition py_trunc :: "real \<Rightarrow> int" where
  "py_trunc v = (if 0 \<le> v then \<lfloor>v\<rfloor> else \<lceil>v\<rceil>)"

text \<open>\<^verbatim>\<open>int(v)\<close> of a float: NaN raises ValueError, an infinity OverflowError.\<close>

fun py_int :: "sample \<Rightarrow> error + int" where
  "py_int (Fin v) = Inr (py_trunc v)"
| "py_int NaN = Inl ValueError"
| "py_int PosInf = Inl OverflowError"
| "py_int NegInf = Inl OverflowError"

text \<open>\<^verbatim>\<open>int(a)\<close> of an array: only an array of one element converts.\<close>

definition py_int_of_array :: "sample list \<Rightarrow> error + int" where
  "py_int_of_array a = (case a of [v] \<Rightarrow> py_int v | _ \<Rightarrow> Inl TypeError)"

text \<open>\<^verbatim>\<open>a % b\<close> on integers: the result has the sign of \<open>b\<close>.\<close>

definition py_mod :: "int \<Rightarrow> int \<Rightarrow> error + int" where
  "py_mod a b = (if b = 0 then Inl ZeroDivisionError else Inr (a mod b))"

text \<open>\<^verbatim>\<open>xs[i]\<close>: a negative index counts from the end, an index out of range raises.\<close>

definition py_getitem :: "'a list \<Rightarrow> int \<Rightarrow> error + 'a" where
  "py_getitem xs i =
     (if 0 \<le> i \<and> i < int (length xs) then Inr (xs ! nat i)
      else if i < 0 \<and> - int (length xs) \<le> i then Inr (xs ! nat (int (length xs) + i))
      else Inl IndexError)"

text \<open>
  \<^verbatim>\<open>xs[start:stop]\<close>: a negative bound counts from the end, and both bounds are
  clamped to the list.
\<close>

definition py_slice_bound :: "int \<Rightarrow> int \<Rightarrow> nat" where
  "py_slice_bound n i = nat (if i < 0 then max 0 (i + n) else min i n)"

definition py_slice :: "'a list \<Rightarrow> int \<Rightarrow> int \<Rightarrow> 'a list" where
  "py_slice xs start stop =
     drop (py_slice_bound (int (length xs)) start)
       (take (py_slice_bound (int (length xs)) stop) xs)"

text \<open>
  \<^verbatim>\<open>tf.image.convert_image_dtype(x, tf.float32, saturate=True)\<close> of a floating-point
  array is a cast: no scaling and no clamping.
\<close>

definition convert_image_dtype_float :: "tensor \<Rightarrow> tensor" where
  "convert_image_dtype_float t = t"

section \<open>KernelConvolver\<close>

datatype ConvKernel = emboss | shadow | edges | sharpen | unsharp_mask

fun kernel_value :: "ConvKernel \<Rightarrow> int list list" where
  "kernel_value emboss =
     [[ 0,  2,  4],
      [-2,  1,  2],
      [-4, -2,  0]]"
| "kernel_value shadow =
     [[ 0,  1,  1,  1,  1,  1,  1],
      [-1,  0,  2,  2,  1,  1,  1],
      [-1, -2,  0,  4,  2,  1,  1],
      [-1, -2, -4,  8,  4,  2,  1],
      [-1, -1, -2, -4,  0,  2,  1],
      [-1, -1, -1, -2, -2,  0,  1],
      [-1, -1, -1, -1, -1, -1,  0]]"
| "kernel_value edges =
     [[1,   2, 1],
      [2, -12, 2],
      [1,   2, 1]]"
| "kernel_value sharpen =
     [[ 0, -1,  0],
      [-1,  5, -1],
      [ 0, -1,  0]]"
| "kernel_value unsharp_mask =
     [[1,  4,    6,  4, 1],
      [4, 16,   24, 16, 4],
      [6, 24, -476, 24, 6],
      [4, 16,   24, 16, 4],
      [1,  4,    6,  4, 1]]"

text \<open>\<^verbatim>\<open>np.repeat(a, n)\<close>: the flattened array with every element repeated \<open>n\<close> times.\<close>

definition np_repeat :: "'a list list \<Rightarrow> nat \<Rightarrow> 'a list" where
  "np_repeat a n = concat (map (replicate n) (concat a))"

text \<open>The first \<open>k\<close> consecutive pieces of length \<open>n\<close> of a list.\<close>

primrec chunks :: "nat \<Rightarrow> nat \<Rightarrow> 'a list \<Rightarrow> 'a list list" where
  "chunks 0 n xs = []"
| "chunks (Suc k) n xs = take n xs # chunks k n (drop n xs)"

text \<open>\<^verbatim>\<open>tf.reshape(a, (d0, d1, d2, d3))\<close> of a flat array, in row-major order.\<close>

definition reshape4 :: "'a list \<Rightarrow> nat \<times> nat \<times> nat \<times> nat \<Rightarrow> error + 'a list list list list" where
  "reshape4 a s =
     (case s of (d0, d1, d2, d3) \<Rightarrow>
        if length a \<noteq> d0 * d1 * d2 * d3 then Inl ValueError
        else Inr (map (\<lambda>a0. map (\<lambda>a1. chunks d2 d3 a1) (chunks d1 (d2 * d3) a0))
                    (chunks d0 (d1 * d2 * d3) a)))"

text \<open>
  \<^verbatim>\<open>tf.image.convert_image_dtype\<close> of a 64-bit integer array to float32: a cast
  followed by a scaling with the inverse of the largest 64-bit integer.
\<close>

definition int64_max :: int where
  "int64_max = 2 ^ 63 - 1"

definition convert_image_dtype_int :: "int \<Rightarrow> sample" where
  "convert_image_dtype_int v = Fin (real_of_int v * (1 / real_of_int int64_max))"

text \<open>
  \<^verbatim>\<open>
  def _conform_kernel_to_tensor(kernel, tensor):
      l = len(kernel)
      channels = tf.shape(tensor).eval()[2]
      temp = np.repeat(kernel, channels)
      temp = tf.reshape(temp, (l, l, channels, 1))
      temp = tf.image.convert_image_dtype(temp, tf.float32, saturate=True)
      return temp
  \<close>
\<close>

definition conform_kernel_to_tensor :: "int list list \<Rightarrow> tensor \<Rightarrow> error + sample list list list list" where
  "conform_kernel_to_tensor kern tensor =
     (let l = length kern;
          channels = (case shape tensor of (h, w, c) \<Rightarrow> c);
          temp = np_repeat kern channels
      in bind (reshape4 temp (l, l, channels, 1))
           (\<lambda>temp. Inr (map (map (map (map convert_image_dtype_int))) temp)))"

text \<open>\<^verbatim>\<open>np.pad(a, p, "wrap")\<close> along one axis: \<open>p\<close> entries on each side, read cyclically.\<close>

definition pad_wrap :: "nat \<Rightarrow> 'a list \<Rightarrow> 'a list" where
  "pad_wrap p xs =
     (if xs = [] then []
      else map (\<lambda>i. xs ! nat ((int i - int p) mod int (length xs))) [0..<length xs + 2 * p])"

text \<open>The padding \<open>((ph, ph), (pw, pw), (0, 0))\<close> of an image tensor.\<close>

definition pad_tensor_wrap :: "nat \<Rightarrow> nat \<Rightarrow> tensor \<Rightarrow> tensor" where
  "pad_tensor_wrap ph pw t = pad_wrap ph (map (\<lambda>row. map (pad_wrap 0) (pad_wrap pw row)) t)"

text \<open>The sum of a list of samples.\<close>

definition fsum :: "sample list \<Rightarrow> sample" where
  "fsum xs = foldl fadd (Fin 0) xs"

text \<open>
  \<^verbatim>\<open>tf.nn.depthwise_conv2d([input], filter, [1,1,1,1], "VALID")[0]\<close> for a filter of
  shape (fh, fw, channels, 1): every channel is correlated with its own copy of the
  weights, with no implicit padding. An input smaller than the filter is refused.
\<close>

definition depthwise_conv2d_valid :: "tensor \<Rightarrow> sample list list list list \<Rightarrow> error + tensor" where
  "depthwise_conv2d_valid input filt =
     (case shape input of (h, w, c) \<Rightarrow>
        let fh = length filt;
            fw = (case filt of [] \<Rightarrow> 0 | frow # _ \<Rightarrow> length frow)
        in if h < fh \<or> w < fw then Inl ValueError
           else Inr (map (\<lambda>y. map (\<lambda>x. map (\<lambda>ch.
                        fsum (concat (map (\<lambda>i. map (\<lambda>j.
                          fmul (input ! (y + i) ! (x + j) ! ch) (filt ! i ! j ! ch ! 0))
                          [0..<fw]) [0..<fh])))
                      [0..<c]) [0..<w - fw + 1]) [0..<h - fh + 1]))"

text \<open>
  \<^verbatim>\<open>skimage.util.crop(a, ((ch, ch), (cw, cw), (0, 0)))\<close>: along every axis the
  slice \<open>a[before : n - after]\<close>. The releases of the library differ on a negative crop
  width: the older ones refuse it, the later ones slice without a check. The flag
  \<open>validates\<close> says which behaviour is modelled; \<^verbatim>\<open>convolve\<close> has no check of
  its own.
\<close>

definition crop_tensor :: "bool \<Rightarrow> int \<Rightarrow> int \<Rightarrow> tensor \<Rightarrow> error + tensor" where
  "crop_tensor validates ch cw t =
     (if validates \<and> (ch < 0 \<or> cw < 0) then Inl ValueError
      else Inr (map (\<lambda>row. map (\<lambda>px. py_slice px 0 (int (length px) - 0))
                                (py_slice row cw (int (length row) - cw)))
                  (py_slice t ch (int (length t) - ch))))"

text \<open>
  \<^verbatim>\<open>
  def convolve(kernel, tensor):
      height, width, channels = tf.shape(tensor).eval()
      kernel = _conform_kernel_to_tensor(kernel.value, tensor)
      pad_height = int(height * .25)
      pad_width = int(width * .25)
      padding = ((pad_height, pad_height), (pad_width, pad_width), (0, 0))
      tensor = tf.stack(pad(tensor.eval(), padding, "wrap"))
      tensor = tf.nn.depthwise_conv2d([tensor], kernel, [1,1,1,1], "VALID")[0]
      post_height, post_width, channels = tf.shape(tensor).eval()
      crop_height = int((post_height - height) * .5)
      crop_width = int((post_width - width) * .5)
      tensor = crop(tensor.eval(), ((crop_height, crop_height), (crop_width, crop_width), (0, 0)))
      tensor = normalize(tensor)
      return tensor
  \<close>
  The first argument of the model is the flag of \<open>crop_tensor\<close>: the behaviour of the
  library's \<^verbatim>\<open>crop\<close> that the call meets.
\<close>

definition convolve :: "bool \<Rightarrow> ConvKernel \<Rightarrow> tensor \<Rightarrow> error + tensor" where
  "convolve validates kern tensor =
     (case shape tensor of (height, width, channels) \<Rightarrow>
        bind (conform_kernel_to_tensor (kernel_value kern) tensor) (\<lambda>kern.
          let pad_height = py_trunc (real height * 0.25);
              pad_width = py_trunc (real width * 0.25);
              tensor = pad_tensor_wrap (nat pad_height) (nat pad_width) tensor
          in bind (depthwise_conv2d_valid tensor kern) (\<lambda>tensor.
               case shape tensor of (post_height, post_width, channels) \<Rightarrow>
                 let crop_height = py_trunc (real_of_int (int post_height - int height) * 0.5);
                     crop_width = py_trunc (real_of_int (int post_width - int width) * 0.5)
                 in bind (crop_tensor validates crop_height crop_width tensor) (\<lambda>tensor.
                      Inr (normalize_tensor tensor)))))"

section \<open>Displacer\<close>

text \<open>
  \<^verbatim>\<open>tf.image.rgb_to_grayscale\<close>: the last dimension must have size 3; every pixel
  becomes its luma, a single channel.
\<close>

definition rgb_to_grayscale :: "tensor \<Rightarrow> error + tensor" where
  "rgb_to_grayscale images =
     (case shape images of (h, w, c) \<Rightarrow>
        if c \<noteq> 3 then Inl ValueError
        else Inr (map (map (\<lambda>px. [fsum (map2 fmul px [Fin 0.2989, Fin 0.5870, Fin 0.1140])]))
                    images))"

text \<open>\<^verbatim>\<open>np.zeros(shape)\<close>.\<close>

definition np_zeros :: "nat \<times> nat \<times> nat \<Rightarrow> tensor" where
  "np_zeros s = (case s of (h, w, c) \<Rightarrow> const_tensor h w c (Fin 0))"

text \<open>The assignment \<^verbatim>\<open>temp[y][x] = px\<close>.\<close>

definition np_setitem2 :: "tensor \<Rightarrow> nat \<Rightarrow> nat \<Rightarrow> pixel \<Rightarrow> error + tensor" where
  "np_setitem2 temp y x px =
     (if y < length temp \<and> x < length (temp ! y)
      then Inr (temp[y := (temp ! y)[x := px]])
      else Inl IndexError)"

text \<open>
  The body of the loop of \<^verbatim>\<open>displace\<close>, up to the value that is stored:
  \<^verbatim>\<open>
  x_offset = (x + int(reference[(y + base_y_offset) % height][x] * width)) % width
  y_offset = (y + int(reference[y][(x + base_x_offset) % width] * height)) % height
  ... tensor[y_offset][x_offset]
  \<close>
  Every read of \<^verbatim>\<open>reference\<close> and of \<^verbatim>\<open>tensor\<close> is a checked read.
\<close>

definition displace_pixel ::
  "tensor \<Rightarrow> tensor \<Rightarrow> nat \<Rightarrow> nat \<Rightarrow> int \<Rightarrow> int \<Rightarrow> nat \<Rightarrow> nat \<Rightarrow> error + pixel" where
  "displace_pixel reference tensor height width base_x_offset base_y_offset x y =
     bind (py_mod (int y + base_y_offset) (int height)) (\<lambda>i.
     bind (py_getitem reference i) (\<lambda>row.
     bind (py_getitem row (int x)) (\<lambda>px.
     bind (py_int_of_array (map (\<lambda>v. fmul v (Fin (real width))) px)) (\<lambda>dx.
     bind (py_mod (int x + dx) (int width)) (\<lambda>x_offset.
     bind (py_getitem reference (int y)) (\<lambda>row.
     bind (py_mod (int x + base_x_offset) (int width)) (\<lambda>j.
     bind (py_getitem row j) (\<lambda>px.
     bind (py_int_of_array (map (\<lambda>v. fmul v (Fin (real height))) px)) (\<lambda>dy.
     bind (py_mod (int y + dy) (int height)) (\<lambda>y_offset.
     bind (py_getitem tensor y_offset) (\<lambda>row.
     py_getitem row x_offset)))))))))))"

text \<open>
  \<^verbatim>\<open>
  for x in range(width):
      for y in range(height):
          ...
          temp[y][x] = tensor[y_offset][x_offset]
  \<close>
  The first exception ends the loops.
\<close>

definition displace_loop ::
  "tensor \<Rightarrow> tensor \<Rightarrow> nat \<Rightarrow> nat \<Rightarrow> int \<Rightarrow> int \<Rightarrow> tensor \<Rightarrow> error + tensor" where
  "displace_loop reference tensor height width base_x_offset base_y_offset temp =
     fold (\<lambda>x acc.
        fold (\<lambda>y acc.
           bind acc (\<lambda>temp.
           bind (displace_pixel reference tensor height width base_x_offset base_y_offset x y)
             (\<lambda>px. np_setitem2 temp y x px)))
          [0..<height] acc)
       [0..<width] (Inr temp)"

text \<open>
  \<^verbatim>\<open>
  def displace(tensor, displacement=1.0):
      shape = tf.shape(tensor).eval()
      height, width, channels = shape
      reference = tf.image.rgb_to_grayscale(tensor) if channels > 2 else tensor
      reference = tf.subtract(reference, .5)
      reference = tf.multiply(reference, 2 * displacement)
      reference = reference.eval()
      tensor = tensor.eval()
      temp = np.zeros(shape)
      base_x_offset = int(random.random() * width)
      base_y_offset = int(random.random() * height)
      for x in range(width): ...
      temp = tf.image.convert_image_dtype(temp, tf.float32, saturate=True)
      return temp
  \<close>
  The two draws of \<^verbatim>\<open>random.random()\<close> are arguments of the model, in the order
  in which the call draws them.
\<close>

definition displace :: "tensor \<Rightarrow> sample \<Rightarrow> real \<Rightarrow> real \<Rightarrow> error + tensor" where
  "displace tensor displacement random1 random2 =
     (case shape tensor of (height, width, channels) \<Rightarrow>
        bind (if channels > 2 then rgb_to_grayscale tensor else Inr tensor) (\<lambda>reference.
          let reference = tmap (\<lambda>v. fsub v (Fin (1/2))) reference;
              reference = tmap (\<lambda>v. fmul v (fmul (Fin 2) displacement)) reference;
              temp = np_zeros (height, width, channels);
              base_x_offset = py_trunc (random1 * real width);
              base_y_offset = py_trunc (random2 * real height)
          in bind (displace_loop reference tensor height width base_x_offset base_y_offset temp)
               (\<lambda>temp. Inr (convert_image_dtype_float temp))))"

section \<open>Resampler and WaveletDecomposer\<close>

text \<open>
  \<^verbatim>\<open>resample\<close> hands the work to \<^verbatim>\<open>skimage.transform.resize\<close>. The spline
  interpolation of that library is an argument of the model: \<open>interp order image
  (rows, cols) r c d\<close> is the interpolated value of channel \<open>d\<close> at the output
  position \<open>(r, c)\<close>, for the boundary mode \<open>wrap\<close>.
\<close>

type_synonym interp = "nat \<Rightarrow> tensor \<Rightarrow> nat \<times> nat \<Rightarrow> nat \<Rightarrow> nat \<Rightarrow> nat \<Rightarrow> sample"

text \<open>\<^verbatim>\<open>np.clip\<close>: NaN propagates.\<close>

definition np_clip :: "sample \<Rightarrow> sample \<Rightarrow> sample \<Rightarrow> sample" where
  "np_clip v lo hi = np_minimum (np_maximum v lo) hi"

text \<open>\<^verbatim>\<open>image.min()\<close> and \<^verbatim>\<open>image.max()\<close>: an empty array has neither.\<close>

definition np_amin :: "tensor \<Rightarrow> error + sample" where
  "np_amin t = (case flat t of [] \<Rightarrow> Inl ValueError | x # xs \<Rightarrow> Inr (fold np_minimum xs x))"

definition np_amax :: "tensor \<Rightarrow> error + sample" where
  "np_amax t = (case flat t of [] \<Rightarrow> Inl ValueError | x # xs \<Rightarrow> Inr (fold np_maximum xs x))"

text \<open>
  \<^verbatim>\<open>resize(image, output_shape, mode="wrap", order=order, preserve_range=True)\<close>:
  the scale factors \<^verbatim>\<open>float(orig_rows) / rows\<close> and \<^verbatim>\<open>float(orig_cols) / cols\<close>
  are computed first, so a target of 0 rows or columns ends with ZeroDivisionError; the
  output array has the shape asked for; for an order other than 0 the output is clipped
  to the range of the input (\<^verbatim>\<open>clip=True\<close> is the default).
\<close>

definition resize :: "interp \<Rightarrow> tensor \<Rightarrow> nat \<times> nat \<times> nat \<Rightarrow> nat \<Rightarrow> error + tensor" where
  "resize ip img output_shape order =
     (case output_shape of (rows, cols, chans) \<Rightarrow>
        if rows = 0 \<or> cols = 0 then Inl ZeroDivisionError
        else
          let out = map (\<lambda>r. map (\<lambda>c. map (\<lambda>d. ip order img (rows, cols) r c d)
                      [0..<chans]) [0..<cols]) [0..<rows]
          in if order \<noteq> 0
             then bind (np_amin img) (\<lambda>min_val.
                  bind (np_amax img) (\<lambda>max_val.
                  Inr (tmap (\<lambda>v. np_clip v min_val max_val) out)))
             else Inr out)"

text \<open>
  \<^verbatim>\<open>
  def resample(tensor, width, height, spline_order=3):
      _height, _width, channels = tf.shape(tensor).eval()
      if isinstance(tensor, tf.Tensor):
          downcast = tensor.eval()
      else:
          downcast = tensor
      downcast = resize(downcast, (height, width, channels), mode="wrap",
                        order=spline_order, preserve_range=True)
      return tf.image.convert_image_dtype(downcast, tf.float32, saturate=True)
  \<close>
  Both branches of the \<^verbatim>\<open>isinstance\<close> test yield the array of the tensor.
\<close>

definition resample :: "interp \<Rightarrow> tensor \<Rightarrow> nat \<Rightarrow> nat \<Rightarrow> nat \<Rightarrow> error + tensor" where
  "resample ip tensor width height spline_order =
     (case shape tensor of (height0, width0, channels) \<Rightarrow>
        let downcast = tensor
        in bind (resize ip downcast (height, width, channels) spline_order)
             (\<lambda>downcast. Inr (convert_image_dtype_float downcast)))"

text \<open>
  \<^verbatim>\<open>
  def wavelet(tensor):
      shape = tf.shape(tensor).eval()
      height, width, channels = shape
      return tensor - resample(resample(tensor, int(width * .5), int(height * .5)), width, height)
  \<close>
\<close>

definition wavelet :: "interp \<Rightarrow> tensor \<Rightarrow> error + tensor" where
  "wavelet ip tensor =
     (case shape tensor of (height, width, channels) \<Rightarrow>
        bind (resample ip tensor (nat (py_trunc (real width * 0.5)))
                (nat (py_trunc (real height * 0.5))) 3) (\<lambda>small.
        bind (resample ip small width height 3) (\<lambda>roundtrip.
        Inr (tmap2 fsub tensor roundtrip))))"

section \<open>Notions used in the statements\<close>

text \<open>The absolute value of a sample, for the formula of \<open>crease\<close>.\<close>

fun fabs :: "sample \<Rightarrow> sample" where
  "fabs (Fin a) = Fin \<bar>a\<bar>"
| "fabs PosInf = PosInf"
| "fabs NegInf = PosInf"
| "fabs NaN = NaN"

text \<open>
  A tensor is rectangular, with the dimensions that \<open>shape\<close> reads off; a dimension
  may be zero.
\<close>

definition rectangular :: "'a list list list \<Rightarrow> bool" where
  "rectangular t = (case shape t of (h, w, c) \<Rightarrow> has_shape h w c t)"

text \<open>A sample is a number of the unit interval.\<close>

definition unit_sample :: "sample \<Rightarrow> bool" where
  "unit_sample s = (case s of Fin v \<Rightarrow> 0 \<le> v \<and> v \<le> 1 | _ \<Rightarrow> False)"

text \<open>A tensor of reals holds at least two different values.\<close>

definition non_constant :: "real list list list \<Rightarrow> bool" where
  "non_constant r = (\<exists>a \<in> set (flat r). \<exists>b \<in> set (flat r). a \<noteq> b)"

text \<open>The side length of a kernel of the enumerated set.\<close>

definition kernel_side :: "ConvKernel \<Rightarrow> nat" where
  "kernel_side k = length (kernel_value k)"

text \<open>
  The spec's cyclic shift of a tensor by a horizontal and a vertical offset, to compare
  \<open>displace\<close> with: the output at \<open>(y, x)\<close> is the input at
  \<open>((y + sy) mod height, (x + sx) mod width)\<close>.
\<close>

definition cyclic_shift :: "nat \<Rightarrow> nat \<Rightarrow> tensor \<Rightarrow> tensor" where
  "cyclic_shift sx sy t =
     (case shape t of (h, w, c) \<Rightarrow>
        map (\<lambda>y. map (\<lambda>x. t ! ((y + sy) mod h) ! ((x + sx) mod w)) [0..<w]) [0..<h])"

text \<open>
  The interpolation yields a number (not NaN) at every output position, for one image
  and one target size.
\<close>

definition no_nan_on :: "interp \<Rightarrow> nat \<Rightarrow> tensor \<Rightarrow> nat \<times> nat \<Rightarrow> bool" where
  "no_nan_on ip order img out =
     (case out of (rows, cols) \<Rightarrow> case shape img of (h, w, ch) \<Rightarrow>
        list_all (\<lambda>r. list_all (\<lambda>c. list_all (\<lambda>d. ip order img out r c d \<noteq> NaN)
          [0..<ch]) [0..<cols]) [0..<rows])"

text \<open>
  A nearest-neighbour interpolation, the simplest instance of the argument \<open>interp\<close>;
  it serves for concrete runs of \<open>resample\<close> and \<open>wavelet\<close>.
\<close>

definition nearest_neighbour :: interp where
  "nearest_neighbour order img out r c d =
     (case out of (rows, cols) \<Rightarrow> case shape img of (h, w, ch) \<Rightarrow>
        img ! ((r * h) div rows) ! ((c * w) div cols) ! d)"

section \<open>Facts about samples and tensors\<close>

lemma fsub_Fin [simp]: "fsub (Fin a) (Fin b) = Fin (a - b)"
  by (simp add: fsub_def)

lemma tf_maximum_Fin [simp]: "tf_maximum (Fin a) (Fin b) = Fin (max a b)"
  by (simp add: tf_maximum_def max_def)

lemma np_minimum_Fin [simp]: "np_minimum (Fin a) (Fin b) = Fin (min a b)"
  by (simp add: np_minimum_def min_def)

lemma np_maximum_Fin [simp]: "np_maximum (Fin a) (Fin b) = Fin (max a b)"
  by (simp add: np_maximum_def max_def)

lemma float32_overflow_pos: "1 < float32_overflow"
  by (simp add: float32_overflow_def)

lemma to_float32_Fin:
  "- float32_overflow < v \<Longrightarrow> v < float32_overflow \<Longrightarrow> to_float32 (Fin v) = Fin v"
  by (simp add: to_float32_def)

lemma flat_tmap: "flat (tmap f t) = map f (flat t)"
  by (simp add: flat_def tmap_def map_concat)

lemma tmap_tmap: "tmap f (tmap g t) = tmap (\<lambda>x. f (g x)) t"
  by (simp add: tmap_def comp_def)

lemma has_shape_tmap [simp]: "has_shape h w c (tmap f t) = has_shape h w c t"
  by (auto simp: has_shape_def tmap_def list_all_iff)

lemma shape_tmap [simp]: "shape (tmap f t) = shape t"
  by (auto simp: shape_def tmap_def split: list.splits)

lemma shape_of_has_shape:
  assumes "has_shape h w c t" "0 < h" "0 < w"
  shows "shape t = (h, w, c)"
proof -
  from assms obtain row rest where t: "t = row # rest" by (cases t) (auto simp: has_shape_def)
  with assms have row: "length row = w" "list_all (\<lambda>px. length px = c) row"
    by (auto simp: has_shape_def)
  with assms(3) obtain px prest where r: "row = px # prest" by (cases row) auto
  with row have "length px = c" by simp
  with assms(1) t r row show ?thesis by (simp add: shape_def has_shape_def)
qed

lemma tmap_cong_flat:
  assumes "\<And>x. x \<in> set (flat t) \<Longrightarrow> f x = g x"
  shows "tmap f t = tmap g t"
  using assms by (auto simp: tmap_def flat_def)

lemma map2_replicate: "length xs = n \<Longrightarrow> map2 f (replicate n a) xs = map (f a) xs"
  by (induction xs arbitrary: n) auto

lemma tmap2_const:
  assumes "has_shape h w c t"
  shows "tmap2 f (const_tensor h w c a) t = tmap (f a) t"
proof -
  have px: "map2 f (replicate c a) p = map (f a) p" if "length p = c" for p
    using that by (rule map2_replicate)
  have row: "map2 (map2 f) (replicate w (replicate c a)) row = map (map (f a)) row"
    if "length row = w" "list_all (\<lambda>p. length p = c) row" for row
  proof -
    have "map2 (map2 f) (replicate w (replicate c a)) row = map (map2 f (replicate c a)) row"
      using that(1) by (rule map2_replicate)
    also have "\<dots> = map (map (f a)) row"
      using that(2) by (auto simp: list_all_iff px)
    finally show ?thesis .
  qed
  have "tmap2 f (const_tensor h w c a) t = map (map2 (map2 f) (replicate w (replicate c a))) t"
    using assms by (simp add: tmap2_def const_tensor_def has_shape_def map2_replicate)
  also have "\<dots> = tmap (f a) t"
    using assms by (auto simp: tmap_def has_shape_def list_all_iff row)
  finally show ?thesis .
qed

lemma rectangular_tmap [simp]: "rectangular (tmap f t) = rectangular t"
  by (simp add: rectangular_def)

lemma map2_map_same: "map2 f xs (map k xs) = map (\<lambda>x. f x (k x)) xs"
  by (induction xs) auto

lemma tmap2_tmap_same: "tmap2 f t (tmap k t) = tmap (\<lambda>x. f x (k x)) t"
proof -
  have px: "map2 f p (map k p) = map (\<lambda>x. f x (k x)) p" for p
    by (rule map2_map_same)
  have row: "map2 (map2 f) row (map (map k) row) = map (map (\<lambda>x. f x (k x))) row" for row
    by (simp add: map2_map_same px)
  show ?thesis
    by (simp add: tmap2_def tmap_def map2_map_same row)
qed

lemma rectangular_has_shape: "has_shape h w c t \<Longrightarrow> rectangular t"
  by (cases t; cases "hd t") (auto simp: rectangular_def shape_def has_shape_def list_all_iff)

lemma has_shape_const [simp]: "has_shape h w c (const_tensor h w c v)"
  by (simp add: has_shape_def const_tensor_def list_all_iff)

lemma tmap_const [simp]: "tmap f (const_tensor h w c v) = const_tensor h w c (f v)"
  by (simp add: tmap_def const_tensor_def)

lemma image_tensorD:
  assumes "image_tensor t" "shape t = (h, w, c)"
  shows "0 < h" "0 < w" "0 < c" "has_shape h w c t"
  using assms by (simp_all add: image_tensor_def)

lemma image_tensorI:
  assumes "has_shape h w c t" "0 < h" "0 < w" "0 < c"
  shows "image_tensor t"
  using assms shape_of_has_shape [OF assms(1-3)] by (simp add: image_tensor_def)

lemma flat_of_reals: "flat (of_reals r) = map Fin (flat r)"
  by (simp add: of_reals_def flat_tmap)

section \<open>Facts about normalize\<close>

lemma fold_min_Fin: "fold (\<lambda>x acc. np_minimum acc x) (map Fin xs) (Fin a) = Fin (fold min xs a)"
  by (induction xs arbitrary: a) (simp_all add: min.commute)

lemma fold_max_Fin: "fold (\<lambda>x acc. np_maximum acc x) (map Fin xs) (Fin a) = Fin (fold max xs a)"
  by (induction xs arbitrary: a) (simp_all add: max.commute)

lemma reduce_min_of_reals:
  assumes "flat r \<noteq> []"
  shows "reduce_min (of_reals r) = Fin (Min (set (flat r)))"
proof -
  obtain x xs where xs: "flat r = x # xs" using assms by (cases "flat r") auto
  have "reduce_min (of_reals r) = fold (\<lambda>x acc. np_minimum acc x) (map Fin xs) (Fin x)"
    by (simp add: reduce_min_def of_reals_def flat_tmap xs np_minimum_def)
  also have "\<dots> = Fin (fold min xs x)" by (rule fold_min_Fin)
  also have "fold min xs x = Min (set (flat r))"
    unfolding xs by (rule Min.set_eq_fold [symmetric])
  finally show ?thesis .
qed

lemma reduce_max_of_reals:
  assumes "flat r \<noteq> []"
  shows "reduce_max (of_reals r) = Fin (Max (set (flat r)))"
proof -
  obtain x xs where xs: "flat r = x # xs" using assms by (cases "flat r") auto
  have "reduce_max (of_reals r) = fold (\<lambda>x acc. np_maximum acc x) (map Fin xs) (Fin x)"
    by (simp add: reduce_max_def of_reals_def flat_tmap xs np_maximum_def)
  also have "\<dots> = Fin (fold max xs x)" by (rule fold_max_Fin)
  also have "fold max xs x = Max (set (flat r))"
    unfolding xs by (rule Max.set_eq_fold [symmetric])
  finally show ?thesis .
qed

lemma normalize_of_reals:
  assumes ne: "flat r \<noteq> []" and nc: "Min (set (flat r)) \<noteq> Max (set (flat r))"
    and rng: "Max (set (flat r)) - Min (set (flat r)) < float32_overflow"
  shows "normalize_tensor (of_reals r) =
         of_reals (tmap (\<lambda>v. (v - Min (set (flat r))) / (Max (set (flat r)) - Min (set (flat r)))) r)"
proof -
  let ?lo = "Min (set (flat r))" and ?hi = "Max (set (flat r))"
  have fin: "finite (set (flat r))" and nonempty: "set (flat r) \<noteq> {}" using ne by auto
  have "?lo \<le> ?hi" using fin nonempty by simp
  with nc have lt: "?lo < ?hi" by simp
  note pos = float32_overflow_pos
  have range: "fsub32 (Fin ?hi) (Fin ?lo) = Fin (?hi - ?lo)"
  proof -
    have "- float32_overflow < ?hi - ?lo" using lt pos by linarith
    then show ?thesis using rng by (simp add: fsub32_def to_float32_Fin)
  qed
  have sample: "fdiv32 (fsub32 (Fin v) (Fin ?lo)) (Fin (?hi - ?lo)) = Fin ((v - ?lo) / (?hi - ?lo))"
    if "v \<in> set (flat r)" for v
  proof -
    have b: "?lo \<le> v" "v \<le> ?hi" using that by simp_all
    then have "- float32_overflow < v - ?lo" "v - ?lo < float32_overflow"
      using rng pos by linarith+
    then have s: "fsub32 (Fin v) (Fin ?lo) = Fin (v - ?lo)"
      by (simp add: fsub32_def to_float32_Fin)
    have "0 \<le> (v - ?lo) / (?hi - ?lo)" "(v - ?lo) / (?hi - ?lo) \<le> 1"
      using b lt by simp_all
    then have "- float32_overflow < (v - ?lo) / (?hi - ?lo)"
      "(v - ?lo) / (?hi - ?lo) < float32_overflow"
      using pos by linarith+
    then have "to_float32 (Fin ((v - ?lo) / (?hi - ?lo))) = Fin ((v - ?lo) / (?hi - ?lo))"
      by (rule to_float32_Fin)
    moreover have "fdiv (Fin (v - ?lo)) (Fin (?hi - ?lo)) = Fin ((v - ?lo) / (?hi - ?lo))"
      using lt by simp
    ultimately show ?thesis by (simp only: s fdiv32_def)
  qed
  have "normalize_tensor (of_reals r) =
        tmap (\<lambda>x. fdiv32 x (Fin (?hi - ?lo))) (tmap (\<lambda>x. fsub32 x (Fin ?lo)) (of_reals r))"
    by (simp only: normalize_tensor_def reduce_min_of_reals [OF ne] reduce_max_of_reals [OF ne] range)
  also have "\<dots> = tmap (\<lambda>v. fdiv32 (fsub32 (Fin v) (Fin ?lo)) (Fin (?hi - ?lo))) r"
    by (simp only: of_reals_def tmap_tmap)
  also have "\<dots> = tmap (\<lambda>v. Fin ((v - ?lo) / (?hi - ?lo))) r"
    by (rule tmap_cong_flat) (rule sample)
  also have "\<dots> = of_reals (tmap (\<lambda>v. (v - ?lo) / (?hi - ?lo)) r)"
    by (simp only: of_reals_def tmap_tmap)
  finally show ?thesis .
qed

lemma Min_affine:
  fixes A :: "real set"
  assumes "finite A" "A \<noteq> {}" "lo < hi"
  shows "Min ((\<lambda>v. (v - lo) / (hi - lo)) ` A) = (Min A - lo) / (hi - lo)"
proof -
  have "mono (\<lambda>v. (v - lo) / (hi - lo))"
    using assms(3) by (intro monoI) (simp add: divide_right_mono)
  from mono_Min_commute [OF this assms(1,2)] show ?thesis by simp
qed

lemma Max_affine:
  fixes A :: "real set"
  assumes "finite A" "A \<noteq> {}" "lo < hi"
  shows "Max ((\<lambda>v. (v - lo) / (hi - lo)) ` A) = (Max A - lo) / (hi - lo)"
proof -
  have "mono (\<lambda>v. (v - lo) / (hi - lo))"
    using assms(3) by (intro monoI) (simp add: divide_right_mono)
  from mono_Max_commute [OF this assms(1,2)] show ?thesis by simp
qed

lemma normalize_min_max:
  assumes ne: "flat r \<noteq> []" and nc: "Min (set (flat r)) \<noteq> Max (set (flat r))"
    and rng: "Max (set (flat r)) - Min (set (flat r)) < float32_overflow"
  shows "reduce_min (normalize_tensor (of_reals r)) = Fin 0"
    and "reduce_max (normalize_tensor (of_reals r)) = Fin 1"
proof -
  let ?A = "set (flat r)"
  have fin: "finite ?A" and nonempty: "?A \<noteq> {}" using ne by auto
  have "Min ?A \<le> Max ?A" using fin nonempty by simp
  with nc have lt: "Min ?A < Max ?A" by simp
  let ?f = "\<lambda>v. (v - Min ?A) / (Max ?A - Min ?A)"
  have ne': "flat (tmap ?f r) \<noteq> []" using ne by (simp add: flat_tmap)
  show "reduce_min (normalize_tensor (of_reals r)) = Fin 0"
    using lt by (simp add: normalize_of_reals [OF ne nc rng] reduce_min_of_reals [OF ne']
        flat_tmap Min_affine [OF fin nonempty lt])
  show "reduce_max (normalize_tensor (of_reals r)) = Fin 1"
    using lt by (simp add: normalize_of_reals [OF ne nc rng] reduce_max_of_reals [OF ne']
        flat_tmap Max_affine [OF fin nonempty lt])
qed

lemma non_constant_Min_Max:
  assumes "non_constant r"
  shows "flat r \<noteq> []" and "Min (set (flat r)) \<noteq> Max (set (flat r))"
proof -
  from assms obtain a b where ab: "a \<in> set (flat r)" "b \<in> set (flat r)" "a \<noteq> b"
    by (auto simp: non_constant_def)
  then show "flat r \<noteq> []" by auto
  have "Min (set (flat r)) \<le> a" "a \<le> Max (set (flat r))"
       "Min (set (flat r)) \<le> b" "b \<le> Max (set (flat r))"
    using ab by simp_all
  with ab(3) show "Min (set (flat r)) \<noteq> Max (set (flat r))" by linarith
qed

text \<open>
  Claim C5, as the code has it. For a tensor of finite samples with at least two different
  values, whose range \<open>max - min\<close> is below the overflow threshold of float32,
  \<open>normalize_tensor\<close> is the affine rescaling \<open>(v - min) / (max - min)\<close> of every sample,
  where \<open>min\<close> and \<open>max\<close> are the values \<open>reduce_min\<close> and \<open>reduce_max\<close> compute; the
  minimum of the result is 0 and its maximum is 1. The quotient is the exact one: the
  rounding of float32 is not modelled.
\<close>

theorem normalize_rescales:
  assumes "non_constant r"
    and "Max (set (flat r)) - Min (set (flat r)) < float32_overflow"
  shows "reduce_min (of_reals r) = Fin (Min (set (flat r))) \<and>
         reduce_max (of_reals r) = Fin (Max (set (flat r))) \<and>
         normalize_tensor (of_reals r) =
           of_reals (tmap (\<lambda>v. (v - Min (set (flat r))) / (Max (set (flat r)) - Min (set (flat r)))) r) \<and>
         reduce_min (normalize_tensor (of_reals r)) = Fin 0 \<and>
         reduce_max (normalize_tensor (of_reals r)) = Fin 1"
proof -
  note nc = non_constant_Min_Max [OF assms(1)]
  show ?thesis
    using reduce_min_of_reals [OF nc(1)] reduce_max_of_reals [OF nc(1)]
      normalize_of_reals [OF nc assms(2)] normalize_min_max [OF nc assms(2)]
    by (intro conjI)
qed

theorem normalize_rescales_witness:
  "non_constant [[[0], [2]], [[1], [2]]] \<and>
   Max (set (flat [[[0], [2]], [[1], [2::real]]])) - Min (set (flat [[[0], [2]], [[1], [2]]]))
     < float32_overflow \<and>
   normalize_tensor (of_reals [[[0], [2]], [[1], [2]]]) = of_reals [[[0], [1]], [[1/2], [1]]] \<and>
   reduce_min (normalize_tensor (of_reals [[[0], [2]], [[1], [2]]])) = Fin 0 \<and>
   reduce_max (normalize_tensor (of_reals [[[0], [2]], [[1], [2]]])) = Fin 1"
proof -
  have h: "non_constant [[[0], [2]], [[1], [2::real]]]"
    by (auto simp: non_constant_def flat_def)
  have m: "Min (set (flat [[[0], [2]], [[1], [2::real]]])) = 0"
       "Max (set (flat [[[0], [2]], [[1], [2::real]]])) = 2"
    by (simp_all add: flat_def)
  have g: "Max (set (flat [[[0], [2]], [[1], [2::real]]])) - Min (set (flat [[[0], [2]], [[1], [2]]]))
     < float32_overflow"
    unfolding m by (simp add: float32_overflow_def)
  from normalize_rescales [OF h g] h g m show ?thesis
    by (simp add: tmap_def of_reals_def reduce_min_def reduce_max_def flat_def
        np_minimum_def np_maximum_def)
qed

text \<open>
  Claim C5 as stated fails on tensors with non-constant values in two ways. When the range
  \<open>max - min\<close> of finite samples overflows float32, the subtraction gives an infinity and
  the division of the infinity by it gives NaN: on the samples \<open>- 2^127\<close> and \<open>2^127\<close> the
  result is 0 and NaN, and its maximum is not 1. The same happens on a tensor that holds an
  infinite sample.
\<close>

theorem normalize_rescales_counterexample:
  "non_constant [[[- (2 ^ 127)], [2 ^ 127]]] \<and>
   normalize_tensor (of_reals [[[- (2 ^ 127)], [2 ^ 127]]]) = [[[Fin 0], [NaN]]] \<and>
   reduce_max (normalize_tensor (of_reals [[[- (2 ^ 127)], [2 ^ 127]]])) \<noteq> Fin 1 \<and>
   normalize_tensor [[[Fin 0], [PosInf]]] = [[[Fin 0], [NaN]]] \<and>
   reduce_max (normalize_tensor [[[Fin 0], [PosInf]]]) \<noteq> Fin 1"
proof -
  have h: "non_constant [[[- (2 ^ 127)], [2 ^ 127 :: real]]]"
    by (auto simp: non_constant_def flat_def)
  have a: "normalize_tensor (of_reals [[[- (2 ^ 127)], [2 ^ 127]]]) = [[[Fin 0], [NaN]]]"
    by (simp add: normalize_tensor_def of_reals_def tmap_def reduce_min_def reduce_max_def flat_def
        np_minimum_def np_maximum_def fsub32_def fdiv32_def to_float32_def float32_overflow_def)
  have b: "normalize_tensor [[[Fin 0], [PosInf]]] = [[[Fin 0], [NaN]]]"
    by (simp add: normalize_tensor_def tmap_def reduce_min_def reduce_max_def flat_def
        np_minimum_def np_maximum_def fsub32_def fdiv32_def fsub_def to_float32_def
        float32_overflow_def)
  have c: "reduce_max [[[Fin 0], [NaN]]] = NaN"
    by (simp add: reduce_max_def flat_def np_maximum_def)
  show ?thesis unfolding a b c using h by simp
qed

text \<open>
  Claim C10, as the code has it. \<open>normalize_tensor\<close> is idempotent on a tensor of finite samples
  with at least two different values whose range \<open>max - min\<close> is below the overflow
  threshold of float32.
\<close>

theorem normalize_idempotent:
  assumes "non_constant r"
    and "Max (set (flat r)) - Min (set (flat r)) < float32_overflow"
  shows "normalize_tensor (normalize_tensor (of_reals r)) = normalize_tensor (of_reals r)"
proof -
  note nc = non_constant_Min_Max [OF assms(1)]
  let ?A = "set (flat r)"
  let ?f = "\<lambda>v. (v - Min ?A) / (Max ?A - Min ?A)"
  let ?r' = "tmap ?f r"
  have fin: "finite ?A" and nonempty: "?A \<noteq> {}" using nc(1) by auto
  have "Min ?A \<le> Max ?A" using fin nonempty by simp
  with nc(2) have lt: "Min ?A < Max ?A" by simp
  have n1: "normalize_tensor (of_reals r) = of_reals ?r'"
    by (rule normalize_of_reals [OF nc assms(2)])
  have ne': "flat ?r' \<noteq> []" using nc(1) by (simp add: flat_tmap)
  have mn: "Min (set (flat ?r')) = 0"
    using lt by (simp add: flat_tmap Min_affine [OF fin nonempty lt])
  have mx: "Max (set (flat ?r')) = 1"
    using lt by (simp add: flat_tmap Max_affine [OF fin nonempty lt])
  have "normalize_tensor (of_reals ?r') =
        of_reals (tmap (\<lambda>v. (v - Min (set (flat ?r'))) / (Max (set (flat ?r')) - Min (set (flat ?r')))) ?r')"
    by (rule normalize_of_reals [OF ne']) (simp_all add: mn mx float32_overflow_def)
  also have "\<dots> = of_reals ?r'"
    unfolding mn mx by (simp add: tmap_def)
  finally show ?thesis by (simp only: n1)
qed

theorem normalize_idempotent_witness:
  "non_constant [[[0], [2]], [[1], [2]]] \<and>
   Max (set (flat [[[0], [2]], [[1], [2::real]]])) - Min (set (flat [[[0], [2]], [[1], [2]]]))
     < float32_overflow \<and>
   normalize_tensor (normalize_tensor (of_reals [[[0], [2]], [[1], [2]]])) =
     normalize_tensor (of_reals [[[0], [2]], [[1], [2]]])"
proof -
  have h: "non_constant [[[0], [2]], [[1], [2::real]]]"
    by (auto simp: non_constant_def flat_def)
  have g: "Max (set (flat [[[0], [2]], [[1], [2::real]]])) - Min (set (flat [[[0], [2]], [[1], [2]]]))
     < float32_overflow"
    by (simp add: flat_def float32_overflow_def)
  from normalize_idempotent [OF h g] h g show ?thesis by simp
qed

text \<open>
  Claim C10 as stated fails on tensors whose values are not all equal. On the samples
  \<open>- 2^127\<close> and \<open>2^127\<close> the range overflows float32 and the first application gives 0 and
  NaN; the reductions of the second application are then NaN, and it gives NaN at every
  sample. The same happens on a tensor that holds an infinite sample.
\<close>

theorem normalize_idempotent_counterexample:
  "non_constant [[[- (2 ^ 127)], [2 ^ 127]]] \<and>
   normalize_tensor (normalize_tensor (of_reals [[[- (2 ^ 127)], [2 ^ 127]]])) = [[[NaN], [NaN]]] \<and>
   normalize_tensor (normalize_tensor (of_reals [[[- (2 ^ 127)], [2 ^ 127]]])) \<noteq>
     normalize_tensor (of_reals [[[- (2 ^ 127)], [2 ^ 127]]]) \<and>
   normalize_tensor (normalize_tensor [[[Fin 0], [PosInf]]]) \<noteq>
     normalize_tensor [[[Fin 0], [PosInf]]]"
proof -
  have h: "non_constant [[[- (2 ^ 127)], [2 ^ 127 :: real]]]"
    by (auto simp: non_constant_def flat_def)
  have a: "normalize_tensor (of_reals [[[- (2 ^ 127)], [2 ^ 127]]]) = [[[Fin 0], [NaN]]]"
    by (simp add: normalize_tensor_def of_reals_def tmap_def reduce_min_def reduce_max_def flat_def
        np_minimum_def np_maximum_def fsub32_def fdiv32_def to_float32_def float32_overflow_def)
  have b: "normalize_tensor [[[Fin 0], [PosInf]]] = [[[Fin 0], [NaN]]]"
    by (simp add: normalize_tensor_def tmap_def reduce_min_def reduce_max_def flat_def
        np_minimum_def np_maximum_def fsub32_def fdiv32_def fsub_def to_float32_def
        float32_overflow_def)
  have c: "normalize_tensor [[[Fin 0], [NaN]]] = [[[NaN], [NaN]]]"
    by (simp add: normalize_tensor_def tmap_def reduce_min_def reduce_max_def flat_def
        np_minimum_def np_maximum_def fsub32_def fdiv32_def fsub_def to_float32_def)
  show ?thesis unfolding a b c using h by simp
qed

text \<open>
  Claim C3. On a tensor of finite samples that are all equal, \<open>normalize_tensor\<close> divides zero by
  zero at every sample: no error is raised, and every sample of the result is NaN.
\<close>

theorem normalize_constant_is_nan:
  assumes "set (flat r) = {v}"
  shows "normalize_tensor (of_reals r) = tmap (\<lambda>x. NaN) r"
proof -
  have ne: "flat r \<noteq> []" using assms by auto
  have mn: "reduce_min (of_reals r) = Fin v" and mx: "reduce_max (of_reals r) = Fin v"
    by (simp_all add: reduce_min_of_reals [OF ne] reduce_max_of_reals [OF ne] assms)
  have z: "fsub32 (Fin v) (Fin v) = Fin 0"
    using float32_overflow_pos by (simp add: fsub32_def to_float32_def)
  have "normalize_tensor (of_reals r) =
        tmap (\<lambda>x. fdiv32 x (Fin 0)) (tmap (\<lambda>x. fsub32 x (Fin v)) (of_reals r))"
    by (simp only: normalize_tensor_def mn mx z)
  also have "\<dots> = tmap (\<lambda>x. fdiv32 (fsub32 (Fin x) (Fin v)) (Fin 0)) r"
    by (simp only: of_reals_def tmap_tmap)
  also have "\<dots> = tmap (\<lambda>x. NaN) r"
    by (rule tmap_cong_flat) (simp add: assms z fdiv32_def to_float32_def)
  finally show ?thesis .
qed

theorem normalize_constant_is_nan_witness:
  "set (flat [[[1/2], [1/2]]]) = {1/2 :: real} \<and>
   normalize_tensor [[[Fin (1/2)], [Fin (1/2)]]] = [[[NaN], [NaN]]]"
proof -
  have h: "set (flat [[[1/2], [1/2]]]) = {1/2 :: real}" by (simp add: flat_def)
  from normalize_constant_is_nan [OF h] h show ?thesis
    by (simp add: of_reals_def tmap_def)
qed

section \<open>Facts about crease\<close>

lemma tf_maximum_neg: "tf_maximum x (fmul x (Fin (- 1))) = fabs x"
  by (cases x) (simp_all add: tf_maximum_def signed_inf_def abs_if max_def)

lemma crease_elementwise:
  assumes "rectangular t"
  shows "crease t = tmap (\<lambda>x. fsub (Fin 1) (fabs (fmul (fsub x (Fin (1/2))) (Fin 2)))) t"
proof -
  let ?g = "\<lambda>x. fabs (fmul (fsub x (Fin (1/2))) (Fin 2))"
  obtain h w c where s: "shape t = (h, w, c)" by (cases "shape t") auto
  with assms have hs: "has_shape h w c (tmap ?g t)" by (simp add: rectangular_def)
  have "crease t = tmap2 fsub (tf_ones (shape (tmap ?g t))) (tmap ?g t)"
    by (simp add: crease_def Let_def tmap_tmap tmap2_tmap_same tf_maximum_neg)
  also have "\<dots> = tmap2 fsub (const_tensor h w c (Fin 1)) (tmap ?g t)"
    by (simp add: tf_ones_def s)
  also have "\<dots> = tmap (fsub (Fin 1)) (tmap ?g t)"
    by (rule tmap2_const [OF hs])
  finally show ?thesis by (simp add: tmap_tmap)
qed

lemma crease_const:
  "crease (const_tensor h w c (Fin v)) = const_tensor h w c (Fin (1 - \<bar>(v - 1/2) * 2\<bar>))"
  by (simp add: crease_elementwise rectangular_has_shape [OF has_shape_const])

text \<open>
  Claim C6. On every rectangular tensor \<open>crease\<close> is \<open>1 - |2 * (x - 0.5)|\<close> at every
  sample; the inputs 0, 0.5 and 1 map to 0, 1 and 0; and when every sample of the input
  is a number of \<open>[0, 1]\<close>, so is every sample of the output.
\<close>

theorem crease_formula:
  assumes "rectangular t"
  shows "crease t = tmap (\<lambda>x. fsub (Fin 1) (fabs (fmul (fsub x (Fin (1/2))) (Fin 2)))) t \<and>
         crease [[[Fin 0, Fin (1/2), Fin 1]]] = [[[Fin 0, Fin 1, Fin 0]]] \<and>
         (list_all unit_sample (flat t) \<longrightarrow> list_all unit_sample (flat (crease t)))"
proof (intro conjI impI)
  show "crease t = tmap (\<lambda>x. fsub (Fin 1) (fabs (fmul (fsub x (Fin (1/2))) (Fin 2)))) t"
    by (rule crease_elementwise [OF assms])
  show "crease [[[Fin 0, Fin (1/2), Fin 1]]] = [[[Fin 0, Fin 1, Fin 0]]]"
    by (simp add: crease_def tmap_def tmap2_def tf_ones_def shape_def const_tensor_def)
  assume unit: "list_all unit_sample (flat t)"
  have "unit_sample s" if "s \<in> set (flat (crease t))" for s
  proof -
    from that obtain x where x: "x \<in> set (flat t)"
      and s: "s = fsub (Fin 1) (fabs (fmul (fsub x (Fin (1/2))) (Fin 2)))"
      by (auto simp: crease_elementwise [OF assms] flat_tmap)
    from unit x have "unit_sample x" by (simp add: list_all_iff)
    then obtain v where v: "x = Fin v" "0 \<le> v" "v \<le> 1"
      by (cases x) (simp_all add: unit_sample_def)
    have "s = Fin (1 - \<bar>(v - 1/2) * 2\<bar>)" by (simp add: s v)
    moreover have "0 \<le> 1 - \<bar>(v - 1/2) * 2\<bar>" "1 - \<bar>(v - 1/2) * 2\<bar> \<le> 1"
      using v(2,3) by (simp_all add: abs_if)
    ultimately show ?thesis by (simp add: unit_sample_def)
  qed
  then show "list_all unit_sample (flat (crease t))" by (simp add: list_all_iff)
qed

theorem crease_formula_witness:
  "rectangular [[[Fin (1/4)], [Fin (3/4)]], [[Fin (1/2)], [Fin 1]]] \<and>
   list_all unit_sample (flat [[[Fin (1/4)], [Fin (3/4)]], [[Fin (1/2)], [Fin 1]]]) \<and>
   crease [[[Fin (1/4)], [Fin (3/4)]], [[Fin (1/2)], [Fin 1]]] =
     [[[Fin (1/2)], [Fin (1/2)]], [[Fin 1], [Fin 0]]] \<and>
   list_all unit_sample (flat (crease [[[Fin (1/4)], [Fin (3/4)]], [[Fin (1/2)], [Fin 1]]]))"
proof -
  let ?t = "[[[Fin (1/4)], [Fin (3/4)]], [[Fin (1/2)], [Fin 1]]]"
  have r: "rectangular ?t" by (simp add: rectangular_def shape_def has_shape_def)
  have u: "list_all unit_sample (flat ?t)"
    by (simp add: flat_def unit_sample_def)
  from crease_formula [OF r] u
  have "crease ?t = tmap (\<lambda>x. fsub (Fin 1) (fabs (fmul (fsub x (Fin (1/2))) (Fin 2)))) ?t"
    and "list_all unit_sample (flat (crease ?t))"
    by blast+
  then show ?thesis using r u by (simp add: tmap_def)
qed

text \<open>
  Claim C4, as the code has it. \<open>crease\<close> maps a tensor of all 0.5 to all 1, and the
  tensors of all 0 and of all 1 to all 0; it is symmetric about 0.5.
\<close>

theorem crease_constants:
  "crease (const_tensor h w c (Fin (1/2))) = const_tensor h w c (Fin 1) \<and>
   crease (const_tensor h w c (Fin 0)) = const_tensor h w c (Fin 0) \<and>
   crease (const_tensor h w c (Fin 1)) = const_tensor h w c (Fin 0) \<and>
   crease (const_tensor h w c (Fin (1/2 + d))) = crease (const_tensor h w c (Fin (1/2 - d)))"
  by (simp add: crease_const)

text \<open>
  The values Claim C4 states fail: the tensor of all 0.5 is not mapped to all 0, and the
  tensors of all 0 and of all 1 are not mapped to all 1.
\<close>

theorem crease_constants_counterexample:
  "crease (const_tensor 1 1 1 (Fin (1/2))) \<noteq> const_tensor 1 1 1 (Fin 0) \<and>
   crease (const_tensor 1 1 1 (Fin 0)) \<noteq> const_tensor 1 1 1 (Fin 1) \<and>
   crease (const_tensor 1 1 1 (Fin 1)) \<noteq> const_tensor 1 1 1 (Fin 1)"
  by (simp add: crease_def tmap_def tmap2_def tf_ones_def shape_def const_tensor_def)

section \<open>Facts about convolve\<close>

lemma py_trunc_quarter: "py_trunc (real n * 0.25) = int (n div 4)"
proof -
  have "real n * 0.25 = real n / real 4" by simp
  then have "\<lfloor>real n * 0.25\<rfloor> = int (n div 4)"
    by (simp only: floor_divide_of_nat_eq)
  then show ?thesis by (simp add: py_trunc_def)
qed

lemma py_trunc_half_even: "py_trunc (real_of_int (2 * k) * 0.5) = k"
  by (simp add: py_trunc_def)

lemma length_chunks [simp]: "length (chunks k n xs) = k"
  by (induction k arbitrary: xs) auto

lemma length_np_repeat: "length (np_repeat a n) = length (concat a) * n"
  by (simp add: np_repeat_def length_concat comp_def sum_list_triv)

lemma kernel_side_cases:
  "kernel_side emboss = 3" "kernel_side shadow = 7" "kernel_side edges = 3"
  "kernel_side sharpen = 3" "kernel_side unsharp_mask = 5"
  by (simp_all add: kernel_side_def)

lemma kernel_square: "length (concat (kernel_value k)) = kernel_side k * kernel_side k"
  by (cases k) (simp_all add: kernel_side_def)

lemma kernel_side_odd:
  "kernel_side k = 2 * ((kernel_side k - 1) div 2) + 1 \<and> 0 < (kernel_side k - 1) div 2"
  by (cases k) (simp_all add: kernel_side_cases)

lemma first_length:
  assumes "xs \<noteq> []" "\<forall>x \<in> set xs. length x = n"
  shows "(case xs of [] \<Rightarrow> 0 | x # _ \<Rightarrow> length x) = n"
  using assms by (cases xs) auto

lemma conform_kernel_ok:
  assumes "shape t = (h, w, c)"
  shows "\<exists>K. conform_kernel_to_tensor (kernel_value k) t = Inr K \<and> length K = kernel_side k \<and>
             (case K of [] \<Rightarrow> 0 | frow # _ \<Rightarrow> length frow) = kernel_side k"
proof -
  let ?l = "kernel_side k"
  let ?K = "map (map (map (map convert_image_dtype_int)))
              (map (\<lambda>a0. map (\<lambda>a1. chunks c 1 a1) (chunks ?l (c * 1) a0))
                 (chunks ?l (?l * c * 1) (np_repeat (kernel_value k) c)))"
  have pos: "0 < ?l" using kernel_side_odd [of k] by linarith
  have len: "length (np_repeat (kernel_value k) c) = ?l * ?l * c * 1"
    by (simp add: length_np_repeat kernel_square)
  have eq: "conform_kernel_to_tensor (kernel_value k) t = Inr ?K"
    using len
    by (simp add: conform_kernel_to_tensor_def Let_def assms reshape4_def bind_def
        kernel_side_def [symmetric])
  have lenK: "length ?K = ?l" by simp
  have "?K \<noteq> []" using pos lenK by (metis length_0_conv less_numeral_extra(3))
  moreover have "\<forall>x \<in> set ?K. length x = ?l" by auto
  ultimately have "(case ?K of [] \<Rightarrow> 0 | frow # _ \<Rightarrow> length frow) = ?l"
    by (rule first_length)
  with eq lenK show ?thesis by blast
qed

lemma length_pad_wrap: "xs \<noteq> [] \<Longrightarrow> length (pad_wrap p xs) = length xs + 2 * p"
  by (simp add: pad_wrap_def)

lemma set_pad_wrap: "set (pad_wrap p xs) \<subseteq> set xs"
proof (cases "xs = []")
  case True then show ?thesis by (simp add: pad_wrap_def)
next
  case False
  then have "nat ((int i - int p) mod int (length xs)) < length xs" for i
    by (simp add: nat_less_iff)
  then show ?thesis using False by (auto simp: pad_wrap_def)
qed

lemma pad_wrap_0: "pad_wrap 0 xs = xs"
proof (cases "xs = []")
  case True then show ?thesis by (simp add: pad_wrap_def)
next
  case False
  have "map (\<lambda>i. xs ! nat (int i mod int (length xs))) [0..<length xs] = map (\<lambda>i. xs ! i) [0..<length xs]"
    by (rule map_cong) simp_all
  then show ?thesis using False by (simp add: pad_wrap_def map_nth)
qed

lemma has_shape_pad:
  assumes "has_shape h w c t" "0 < h" "0 < w"
  shows "has_shape (h + 2 * ph) (w + 2 * pw) c (pad_tensor_wrap ph pw t)"
proof -
  let ?rows = "map (\<lambda>row. map (pad_wrap 0) (pad_wrap pw row)) t"
  have ne: "?rows \<noteq> []" using assms by (auto simp: has_shape_def)
  have rows: "length r = w + 2 * pw \<and> list_all (\<lambda>px. length px = c) r" if "r \<in> set ?rows" for r
  proof -
    from that obtain row where row: "row \<in> set t" "r = map (pad_wrap 0) (pad_wrap pw row)" by auto
    with assms have l: "length row = w" and a: "\<forall>px \<in> set row. length px = c"
      by (auto simp: has_shape_def list_all_iff)
    from l assms(3) have "row \<noteq> []" by auto
    then have "length r = w + 2 * pw" by (simp add: row l length_pad_wrap)
    moreover have "list_all (\<lambda>px. length px = c) r"
      using a set_pad_wrap [of pw row] by (auto simp: row list_all_iff pad_wrap_0)
    ultimately show ?thesis by simp
  qed
  have "length (pad_tensor_wrap ph pw t) = h + 2 * ph"
    using ne assms(1) by (simp add: pad_tensor_wrap_def length_pad_wrap has_shape_def)
  moreover have "\<forall>r \<in> set (pad_tensor_wrap ph pw t). length r = w + 2 * pw \<and> list_all (\<lambda>px. length px = c) r"
    using rows set_pad_wrap [of ph ?rows] unfolding pad_tensor_wrap_def by blast
  ultimately show ?thesis by (simp add: has_shape_def list_all_iff)
qed

lemma depthwise_conv2d_valid_shape:
  assumes "shape t = (h, w, c)" "length K = l"
    "(case K of [] \<Rightarrow> 0 | frow # _ \<Rightarrow> length frow) = l"
  shows "depthwise_conv2d_valid t K =
           (if h < l \<or> w < l then Inl ValueError
            else Inr (map (\<lambda>y. map (\<lambda>x. map (\<lambda>ch.
                        fsum (concat (map (\<lambda>i. map (\<lambda>j.
                          fmul (t ! (y + i) ! (x + j) ! ch) (K ! i ! j ! ch ! 0))
                          [0..<l]) [0..<l])))
                      [0..<c]) [0..<w - l + 1]) [0..<h - l + 1]))"
  using assms by (simp add: depthwise_conv2d_valid_def Let_def)

lemma has_shape_grid:
  "has_shape h w c (map (\<lambda>y. map (\<lambda>x. map (\<lambda>ch. f y x ch) [0..<c]) [0..<w]) [0..<h])"
  by (simp add: has_shape_def list_all_iff)

lemma length_py_slice:
  assumes "0 \<le> a" "0 \<le> b" "a + b \<le> int (length xs)"
  shows "length (py_slice xs a (int (length xs) - b)) = nat (int (length xs) - a - b)"
proof -
  have s: "py_slice_bound (int (length xs)) a = nat a"
    using assms by (simp add: py_slice_bound_def min_def)
  have e: "py_slice_bound (int (length xs)) (int (length xs) - b) = nat (int (length xs) - b)"
    using assms by (simp add: py_slice_bound_def min_def)
  have "nat (int (length xs) - b) \<le> length xs" using assms by linarith
  then have "length (py_slice xs a (int (length xs) - b)) = nat (int (length xs) - b) - nat a"
    by (simp add: py_slice_def s e min_def)
  also have "\<dots> = nat (int (length xs) - a - b)" using assms by linarith
  finally show ?thesis .
qed

lemma set_py_slice: "set (py_slice xs a b) \<subseteq> set xs"
  by (auto simp: py_slice_def dest: in_set_dropD in_set_takeD)

lemma py_slice_all: "py_slice xs 0 (int (length xs)) = xs"
  by (simp add: py_slice_def py_slice_bound_def)

lemma crop_tensor_shape:
  assumes "has_shape h w c t" "0 \<le> a" "0 \<le> b" "2 * a \<le> int h" "2 * b \<le> int w"
  shows "\<exists>r. crop_tensor v a b t = Inr r \<and> has_shape (nat (int h - 2 * a)) (nat (int w - 2 * b)) c r"
proof -
  let ?rows = "py_slice t a (int (length t) - a)"
  let ?r = "map (\<lambda>row. map (\<lambda>px. py_slice px 0 (int (length px) - 0))
                                      (py_slice row b (int (length row) - b))) ?rows"
  have lt: "length t = h" using assms(1) by (simp add: has_shape_def)
  have eq: "crop_tensor v a b t = Inr ?r"
    using assms(2,3) by (simp add: crop_tensor_def)
  have len: "length ?r = nat (int h - 2 * a)"
    using length_py_slice [of a a t] assms(2,4) lt by simp
  have rows: "length r = nat (int w - 2 * b) \<and> list_all (\<lambda>px. length px = c) r" if "r \<in> set ?r" for r
  proof -
    from that obtain row where row: "row \<in> set ?rows"
      "r = map (\<lambda>px. py_slice px 0 (int (length px) - 0)) (py_slice row b (int (length row) - b))"
      by auto
    from row(1) set_py_slice have "row \<in> set t" by fast
    with assms(1) have l: "length row = w" and a: "\<forall>px \<in> set row. length px = c"
      by (auto simp: has_shape_def list_all_iff)
    have "length r = nat (int w - 2 * b)"
      using length_py_slice [of b b row] assms(3,5) l by (simp add: row(2))
    moreover have "list_all (\<lambda>px. length px = c) r"
    proof -
      have "length (py_slice px 0 (int (length px) - 0)) = c"
        if "px \<in> set (py_slice row b (int (length row) - b))" for px
      proof -
        from that set_py_slice have "px \<in> set row" by fast
        with a have "length px = c" by blast
        moreover have "py_slice px 0 (int (length px) - 0) = px"
          by (simp only: diff_zero py_slice_all)
        ultimately show ?thesis by (simp only:)
      qed
      then show ?thesis by (simp add: row(2) list_all_iff)
    qed
    ultimately show ?thesis by simp
  qed
  have "has_shape (nat (int h - 2 * a)) (nat (int w - 2 * b)) c ?r"
    unfolding has_shape_def list_all_iff [of _ ?r] using len rows by blast
  with eq show ?thesis by blast
qed

lemma has_shape_normalize [simp]: "has_shape h w c (normalize_tensor t) = has_shape h w c t"
  by (simp add: normalize_tensor_def)

lemma py_trunc_quarter': "py_trunc (real n / 4) = int (n div 4)"
  using py_trunc_quarter [of n] by simp

lemma crop_bound: "m \<le> p \<Longrightarrow> 2 * (int p - int m) \<le> int (h + 2 * p - 2 * m)"
  by (simp add: of_nat_diff)

lemma crop_result: "m \<le> p \<Longrightarrow> nat (int (h + 2 * p - 2 * m) - 2 * (int p - int m)) = h"
  by (simp add: of_nat_diff)

lemma kernel_side_Suc: "\<exists>m. kernel_side k = 2 * m + 1 \<and> 0 < m"
  using kernel_side_odd [of k] by blast

lemma crop_amount:
  assumes "\<not> h + 2 * p < 2 * m + 1"
  shows "py_trunc (real_of_int (int (h + 2 * p - (2 * m + 1) + 1) - int h) * 0.5) = int p - int m"
proof -
  have "int (h + 2 * p - (2 * m + 1) + 1) - int h = 2 * (int p - int m)"
    using assms by (simp add: of_nat_diff not_less)
  then show ?thesis by (simp only: py_trunc_half_even)
qed

lemma convolve_unfold:
  assumes t: "image_tensor t" "shape t = (h, w, c)" and l: "kernel_side k = 2 * m + 1"
  shows "\<exists>G. has_shape (h + 2 * (h div 4) - 2 * m) (w + 2 * (w div 4) - 2 * m) c G \<and>
          convolve v k t =
           (if h + 2 * (h div 4) < 2 * m + 1 \<or> w + 2 * (w div 4) < 2 * m + 1 then Inl ValueError
            else bind (crop_tensor v (int (h div 4) - int m) (int (w div 4) - int m) G)
                   (\<lambda>tensor. Inr (normalize_tensor tensor)))"
proof -
  let ?l = "2 * m + 1"
  let ?H = "h + 2 * (h div 4)"
  let ?W = "w + 2 * (w div 4)"
  note d = image_tensorD [OF t]
  obtain K where K: "conform_kernel_to_tensor (kernel_value k) t = Inr K" "length K = ?l"
    "(case K of [] \<Rightarrow> 0 | frow # _ \<Rightarrow> length frow) = ?l"
    using conform_kernel_ok [OF t(2), of k] unfolding l by blast
  let ?P = "pad_tensor_wrap (h div 4) (w div 4) t"
  have P: "has_shape ?H ?W c ?P" using d by (intro has_shape_pad)
  have sP: "shape ?P = (?H, ?W, c)" using P d by (intro shape_of_has_shape) simp_all
  define G where "G = map (\<lambda>y. map (\<lambda>x. map (\<lambda>ch.
                        fsum (concat (map (\<lambda>i. map (\<lambda>j.
                          fmul (?P ! (y + i) ! (x + j) ! ch) (K ! i ! j ! ch ! 0))
                          [0..<?l]) [0..<?l])))
                      [0..<c]) [0..<?W - ?l + 1]) [0..<?H - ?l + 1]"
  have G: "has_shape (?H - ?l + 1) (?W - ?l + 1) c G" unfolding G_def by (rule has_shape_grid)
  have conv: "depthwise_conv2d_valid ?P K = (if ?H < ?l \<or> ?W < ?l then Inl ValueError else Inr G)"
    unfolding G_def by (rule depthwise_conv2d_valid_shape [OF sP K(2,3)])
  have sG: "shape G = (?H - ?l + 1, ?W - ?l + 1, c)"
    using G by (intro shape_of_has_shape) simp_all
  have step: "convolve v k t =
     bind (depthwise_conv2d_valid ?P K) (\<lambda>tensor.
               case shape tensor of (post_height, post_width, channels) \<Rightarrow>
                 bind (crop_tensor v (py_trunc (real_of_int (int post_height - int h) * 0.5))
                         (py_trunc (real_of_int (int post_width - int w) * 0.5)) tensor)
                   (\<lambda>tensor. Inr (normalize_tensor tensor)))"
    by (simp add: convolve_def t(2) K(1) bind_def [of "Inr K"] Let_def py_trunc_quarter')
  have eq: "convolve v k t =
           (if ?H < ?l \<or> ?W < ?l then Inl ValueError
            else bind (crop_tensor v (int (h div 4) - int m) (int (w div 4) - int m) G)
                   (\<lambda>tensor. Inr (normalize_tensor tensor)))"
  proof (cases "?H < ?l \<or> ?W < ?l")
    case True
    then show ?thesis unfolding step conv by (simp add: bind_def)
  next
    case False
    then have nH: "\<not> ?H < ?l" and nW: "\<not> ?W < ?l" by simp_all
    have "convolve v k t = bind (crop_tensor v (py_trunc (real_of_int (int (?H - ?l + 1) - int h) * 0.5))
                (py_trunc (real_of_int (int (?W - ?l + 1) - int w) * 0.5)) G)
                   (\<lambda>tensor. Inr (normalize_tensor tensor))"
      unfolding step conv using False by (simp only: if_False bind_def sum.case sG prod.case)
    then show ?thesis using False by (simp only: crop_amount [OF nH] crop_amount [OF nW] if_False)
  qed
  have "?H - ?l + 1 = ?H - 2 * m" "?W - ?l + 1 = ?W - 2 * m" if "\<not> (?H < ?l \<or> ?W < ?l)"
    using that by linarith+
  show ?thesis
  proof (cases "?H < ?l \<or> ?W < ?l")
    case True
    have "convolve v k t = Inl ValueError" using True eq by simp
    with True show ?thesis
      by (intro exI [of _ "const_tensor (?H - 2 * m) (?W - 2 * m) c (Fin 0)"]) simp
  next
    case False
    then have "?H - ?l + 1 = ?H - 2 * m" "?W - ?l + 1 = ?W - 2 * m" by linarith+
    with G have "has_shape (?H - 2 * m) (?W - 2 * m) c G" by simp
    with eq show ?thesis by blast
  qed
qed

lemma convolve_large:
  assumes t: "image_tensor t" "shape t = (h, w, c)"
    and big: "2 * (kernel_side k - 1) \<le> h" "2 * (kernel_side k - 1) \<le> w"
  shows "\<exists>r. convolve v k t = Inr r \<and> shape r = (h, w, c) \<and> image_tensor r"
proof -
  let ?H = "h + 2 * (h div 4)"
  let ?W = "w + 2 * (w div 4)"
  note d = image_tensorD [OF t]
  obtain m where l: "kernel_side k = 2 * m + 1" using kernel_side_Suc by blast
  obtain G where G: "has_shape (?H - 2 * m) (?W - 2 * m) c G"
    and eq: "convolve v k t =
           (if ?H < 2 * m + 1 \<or> ?W < 2 * m + 1 then Inl ValueError
            else bind (crop_tensor v (int (h div 4) - int m) (int (w div 4) - int m) G)
                   (\<lambda>tensor. Inr (normalize_tensor tensor)))"
    using convolve_unfold [OF t l] by blast
  from big have "4 * m \<le> h" "4 * m \<le> w" unfolding l by simp_all
  then have mh: "m \<le> h div 4" and mw: "m \<le> w div 4" by linarith+
  then have ok: "\<not> (?H < 2 * m + 1 \<or> ?W < 2 * m + 1)" using d by linarith
  have "\<exists>r. crop_tensor v (int (h div 4) - int m) (int (w div 4) - int m) G = Inr r \<and>
     has_shape (nat (int (?H - 2 * m) - 2 * (int (h div 4) - int m)))
               (nat (int (?W - 2 * m) - 2 * (int (w div 4) - int m))) c r"
    using mh mw by (intro crop_tensor_shape [OF G]) (simp_all add: crop_bound)
  then obtain r where r: "crop_tensor v (int (h div 4) - int m) (int (w div 4) - int m) G = Inr r"
    "has_shape (nat (int (?H - 2 * m) - 2 * (int (h div 4) - int m)))
               (nat (int (?W - 2 * m) - 2 * (int (w div 4) - int m))) c r" by blast
  have "nat (int (?H - 2 * m) - 2 * (int (h div 4) - int m)) = h"
    "nat (int (?W - 2 * m) - 2 * (int (w div 4) - int m)) = w"
    using mh mw by (simp_all only: crop_result)
  with r(2) have "has_shape h w c (normalize_tensor r)" by simp
  moreover have "convolve v k t = Inr (normalize_tensor r)" using ok r(1) by (simp add: eq bind_def)
  ultimately show ?thesis
    using d shape_of_has_shape image_tensorI by blast
qed

lemma convolve_refused:
  assumes t: "image_tensor t" "shape t = (h, w, c)"
    and small: "h + 2 * (h div 4) < kernel_side k \<or> w + 2 * (w div 4) < kernel_side k"
  shows "convolve v k t = Inl ValueError"
proof -
  obtain m where l: "kernel_side k = 2 * m + 1" using kernel_side_Suc by blast
  obtain G where eq: "convolve v k t =
           (if h + 2 * (h div 4) < 2 * m + 1 \<or> w + 2 * (w div 4) < 2 * m + 1 then Inl ValueError
            else bind (crop_tensor v (int (h div 4) - int m) (int (w div 4) - int m) G)
                   (\<lambda>tensor. Inr (normalize_tensor tensor)))"
    using convolve_unfold [OF t l] by blast
  from small show ?thesis unfolding eq l by (simp only: if_True)
qed

lemma shape_const_tensor:
  assumes "0 < h" "0 < w"
  shows "shape (const_tensor h w c v) = (h, w, c)"
  using assms by (intro shape_of_has_shape) simp_all

lemma image_tensor_const:
  assumes "0 < h" "0 < w" "0 < c"
  shows "image_tensor (const_tensor h w c v)"
  using assms by (intro image_tensorI [of h w c]) simp_all

text \<open>
  Claim C2, as the code has it. For every kernel of the enumerated set, with side \<open>l\<close>,
  and every image tensor whose height and width are both at least \<open>2 * (l - 1)\<close>,
  \<open>convolve\<close> returns an image tensor with the height, width and channel count of its
  input, whichever behaviour the library's \<^verbatim>\<open>crop\<close> has on a negative width.
\<close>

theorem convolve_preserves_shape:
  assumes "image_tensor t" "shape t = (h, w, c)"
    and "2 * (kernel_side k - 1) \<le> h" "2 * (kernel_side k - 1) \<le> w"
  shows "\<exists>r. convolve validates k t = Inr r \<and> shape r = (h, w, c) \<and> image_tensor r"
  using assms by (rule convolve_large)

theorem convolve_preserves_shape_witness:
  "image_tensor (const_tensor 12 13 4 (Fin (1/2))) \<and>
   shape (const_tensor 12 13 4 (Fin (1/2))) = (12, 13, 4) \<and>
   2 * (kernel_side shadow - 1) \<le> (12::nat) \<and>
   2 * (kernel_side shadow - 1) \<le> (13::nat) \<and>
   (\<exists>r. convolve True shadow (const_tensor 12 13 4 (Fin (1/2))) = Inr r \<and>
        shape r = (12, 13, 4) \<and> image_tensor r) \<and>
   (\<exists>r. convolve False shadow (const_tensor 12 13 4 (Fin (1/2))) = Inr r \<and>
        shape r = (12, 13, 4) \<and> image_tensor r)"
proof -
  have a: "image_tensor (const_tensor 12 13 4 (Fin (1/2)))"
    and b: "shape (const_tensor 12 13 4 (Fin (1/2))) = (12, 13, 4)"
    by (simp_all add: image_tensor_const shape_const_tensor)
  have c: "2 * (kernel_side shadow - 1) \<le> (12::nat)"
    and d: "2 * (kernel_side shadow - 1) \<le> (13::nat)"
    by (simp_all add: kernel_side_def)
  from convolve_preserves_shape [OF a b c d, of True] convolve_preserves_shape [OF a b c d, of False]
  show ?thesis using a b c d by simp
qed

text \<open>
  Claim C2 as stated fails on small image tensors: on a tensor of one pixel and one channel
  the padded tensor is smaller than the 3 by 3 kernel, the convolution refuses it, and
  \<open>convolve\<close> returns no tensor.
\<close>

theorem convolve_preserves_shape_counterexample:
  "image_tensor (const_tensor 1 1 1 (Fin 1)) \<and>
   shape (const_tensor 1 1 1 (Fin 1)) = (1, 1, 1) \<and>
   convolve True emboss (const_tensor 1 1 1 (Fin 1)) = Inl ValueError \<and>
   convolve False emboss (const_tensor 1 1 1 (Fin 1)) = Inl ValueError"
proof -
  have a: "image_tensor (const_tensor 1 1 1 (Fin 1))"
    and b: "shape (const_tensor 1 1 1 (Fin 1)) = (1, 1, 1)"
    by (simp_all add: image_tensor_const shape_const_tensor)
  have "convolve v emboss (const_tensor 1 1 1 (Fin 1)) = Inl ValueError" for v
    by (rule convolve_refused [OF a b]) (simp add: kernel_side_def)
  then show ?thesis using a b by simp
qed

section \<open>Facts about displace\<close>

lemma py_mod_pos:
  assumes "0 < n"
  shows "py_mod a (int n) = Inr (a mod int n)" "0 \<le> a mod int n" "a mod int n < int n"
  using assms by (simp_all add: py_mod_def)

lemma py_getitem_in_range:
  assumes "0 \<le> i" "i < int (length xs)"
  shows "py_getitem xs i = Inr (xs ! nat i)"
  using assms by (simp add: py_getitem_def)

lemma py_getitem_nat: "i < length xs \<Longrightarrow> py_getitem xs (int i) = Inr (xs ! i)"
  by (simp add: py_getitem_def)

lemma py_int_errors: "py_int v = Inl e \<Longrightarrow> e = ValueError \<or> e = OverflowError"
  by (cases v) auto

lemma py_int_of_array_errors:
  "py_int_of_array a = Inl e \<Longrightarrow> e = TypeError \<or> e = ValueError \<or> e = OverflowError"
  by (auto simp: py_int_of_array_def split: list.splits dest: py_int_errors)

text \<open>The loop body, once every checked read has been found to be in range.\<close>

lemma displace_pixel_eq:
  assumes ref: "length reference = h" "\<forall>row \<in> set reference. length row = w"
    and ten: "length tensor = h" "\<forall>row \<in> set tensor. length row = w"
    and xy: "x < w" "y < h"
  shows "displace_pixel reference tensor h w bx bo x y =
     bind (py_int_of_array (map (\<lambda>v. fmul v (Fin (real w)))
             (reference ! nat ((int y + bo) mod int h) ! x))) (\<lambda>dx.
     bind (py_int_of_array (map (\<lambda>v. fmul v (Fin (real h)))
             (reference ! y ! nat ((int x + bx) mod int w)))) (\<lambda>dy.
     Inr (tensor ! nat ((int y + dy) mod int h) ! nat ((int x + dx) mod int w))))"
proof -
  have hpos: "0 < h" and wpos: "0 < w" using xy by auto
  have row_ref: "length (reference ! nat (a mod int h)) = w" for a
    using ref py_mod_pos(2,3) [OF hpos, of a] by (simp add: nat_less_iff)
  have row_ten: "length (tensor ! nat (a mod int h)) = w" for a
    using ten py_mod_pos(2,3) [OF hpos, of a] by (simp add: nat_less_iff)
  have g1: "py_getitem reference ((int y + bo) mod int h) = Inr (reference ! nat ((int y + bo) mod int h))"
    using py_mod_pos(2,3) [OF hpos] ref(1) by (intro py_getitem_in_range) simp_all
  have g2: "py_getitem (reference ! nat ((int y + bo) mod int h)) (int x) =
            Inr (reference ! nat ((int y + bo) mod int h) ! x)"
    using xy(1) row_ref by (intro py_getitem_nat) simp
  have g3: "py_getitem reference (int y) = Inr (reference ! y)"
    using xy(2) ref(1) by (intro py_getitem_nat) simp
  have "length (reference ! y) = w" using ref xy(2) by simp
  then have g4: "py_getitem (reference ! y) ((int x + bx) mod int w) =
            Inr (reference ! y ! nat ((int x + bx) mod int w))"
    using py_mod_pos(2,3) [OF wpos] by (intro py_getitem_in_range) simp_all
  have g5: "py_getitem tensor (a mod int h) = Inr (tensor ! nat (a mod int h))" for a
    using py_mod_pos(2,3) [OF hpos] ten(1) by (intro py_getitem_in_range) simp_all
  have g6: "py_getitem (tensor ! nat (a mod int h)) (b mod int w) =
            Inr (tensor ! nat (a mod int h) ! nat (b mod int w))" for a b
    using py_mod_pos(2,3) [OF wpos] row_ten [of a] by (intro py_getitem_in_range) simp_all
  show ?thesis
    unfolding displace_pixel_def
    by (simp add: py_mod_pos(1) [OF hpos] py_mod_pos(1) [OF wpos] g1 g2 g3 g4 g5 g6
        bind_def [of "Inr _"])
qed

lemma displace_pixel_errors:
  assumes ref: "length reference = h" "\<forall>row \<in> set reference. length row = w"
    and ten: "length tensor = h" "\<forall>row \<in> set tensor. length row = w"
    and xy: "x < w" "y < h"
    and e: "displace_pixel reference tensor h w bx bo x y = Inl e"
  shows "e = TypeError \<or> e = ValueError \<or> e = OverflowError"
  using e unfolding displace_pixel_eq [OF ref ten xy]
  by (auto simp: bind_def split: sum.splits dest: py_int_of_array_errors)

lemma fold_invariant:
  assumes "\<And>x a. x \<in> set xs \<Longrightarrow> I a \<Longrightarrow> I (f x a)" "I a"
  shows "I (fold f xs a)"
  using assms by (induction xs arbitrary: a) auto

lemma np_setitem2_ok:
  assumes "length temp = h" "\<forall>row \<in> set temp. length row = w" "x < w" "y < h"
  shows "np_setitem2 temp y x p = Inr (temp[y := (temp ! y)[x := p]])"
    and "length (temp[y := (temp ! y)[x := p]]) = h"
    and "\<forall>row \<in> set (temp[y := (temp ! y)[x := p]]). length row = w"
proof -
  have "length (temp ! y) = w" using assms by simp
  then show "np_setitem2 temp y x p = Inr (temp[y := (temp ! y)[x := p]])"
    using assms by (simp add: np_setitem2_def)
  show "length (temp[y := (temp ! y)[x := p]]) = h" using assms by simp
  show "\<forall>row \<in> set (temp[y := (temp ! y)[x := p]]). length row = w"
  proof
    fix row assume "row \<in> set (temp[y := (temp ! y)[x := p]])"
    then have "row \<in> insert ((temp ! y)[x := p]) (set temp)"
      using set_update_subset_insert by fast
    with assms \<open>length (temp ! y) = w\<close> show "length row = w" by auto
  qed
qed

lemma displace_loop_invariant:
  assumes "length temp = h" "\<forall>row \<in> set temp. length row = w"
  shows "case displace_loop reference tensor h w bx bo temp of
           Inl e \<Rightarrow> \<exists>x<w. \<exists>y<h. displace_pixel reference tensor h w bx bo x y = Inl e
         | Inr temp' \<Rightarrow> length temp' = h \<and> (\<forall>row \<in> set temp'. length row = w)"
proof -
  let ?I = "\<lambda>acc. case acc of
           Inl e \<Rightarrow> \<exists>x<w. \<exists>y<h. displace_pixel reference tensor h w bx bo x y = Inl e
         | Inr temp' \<Rightarrow> length temp' = h \<and> (\<forall>row \<in> set temp'. length row = w)"
  let ?step = "\<lambda>x y acc. bind acc (\<lambda>temp.
           bind (displace_pixel reference tensor h w bx bo x y)
             (\<lambda>px. np_setitem2 temp y x px))"
  have step: "?I (?step x y acc)" if "x < w" "y < h" "?I acc" for x y acc
  proof (cases acc)
    case (Inl e)
    with that(3) show ?thesis by (simp add: bind_def)
  next
    case (Inr t)
    with that(3) have t: "length t = h" "\<forall>row \<in> set t. length row = w" by simp_all
    show ?thesis
    proof (cases "displace_pixel reference tensor h w bx bo x y")
      case (Inl e)
      with that(1,2) show ?thesis by (auto simp: \<open>acc = Inr t\<close> bind_def)
    next
      case (Inr p)
      then show ?thesis
        using np_setitem2_ok [OF t that(1,2), of p] by (simp add: \<open>acc = Inr t\<close> bind_def)
    qed
  qed
  have inner: "?I (fold (?step x) [0..<h] acc)" if "x < w" "?I acc" for x acc
    by (rule fold_invariant [where I = ?I, OF _ that(2)]) (simp add: step that(1))
  have "?I (fold (\<lambda>x acc. fold (?step x) [0..<h] acc) [0..<w] (Inr temp))"
    by (rule fold_invariant [where I = ?I]) (simp_all add: inner assms)
  then show ?thesis by (simp add: displace_loop_def)
qed

lemma displace_loop_ok:
  assumes t: "length temp = h" "\<forall>row \<in> set temp. length row = w"
    and px: "\<And>x y. x < w \<Longrightarrow> y < h \<Longrightarrow> displace_pixel reference tensor h w bx bo x y = Inr (f y x)"
  shows "displace_loop reference tensor h w bx bo temp =
           Inr (map (\<lambda>y. map (\<lambda>x. f y x) [0..<w]) [0..<h])"
proof -
  let ?step = "\<lambda>x y acc. bind acc (\<lambda>temp.
           bind (displace_pixel reference tensor h w bx bo x y)
             (\<lambda>px. np_setitem2 temp y x px))"
  let ?col = "\<lambda>x k t. map (\<lambda>y. if y < k then (t ! y)[x := f y x] else t ! y) [0..<h]"
  have inner: "fold (?step x) [0..<k] (Inr t) = Inr (?col x k t)"
    if "x < w" "k \<le> h" "length t = h" "\<forall>row \<in> set t. length row = w" for x k t
    using that(2)
  proof (induction k)
    case 0
    show ?case using that(3) map_nth [of t] by simp
  next
    case (Suc k)
    then have k: "k < h" by simp
    have len: "length (?col x k t) = h" by simp
    have rows: "\<forall>row \<in> set (?col x k t). length row = w"
      using that(3,4) by auto
    have "fold (?step x) [0..<Suc k] (Inr t) = ?step x k (Inr (?col x k t))"
      using Suc by simp
    also have "\<dots> = np_setitem2 (?col x k t) k x (f k x)"
      by (simp add: bind_def px [OF that(1) k])
    also have "\<dots> = Inr ((?col x k t)[k := (?col x k t ! k)[x := f k x]])"
      by (rule np_setitem2_ok(1) [OF len rows that(1) k])
    also have "(?col x k t)[k := (?col x k t ! k)[x := f k x]] = ?col x (Suc k) t"
      using k by (intro nth_equalityI) (auto simp: nth_list_update less_Suc_eq)
    finally show ?case .
  qed
  let ?grid = "\<lambda>j. map (\<lambda>y. map (\<lambda>x. if x < j then f y x else temp ! y ! x) [0..<w]) [0..<h]"
  have outer: "fold (\<lambda>x acc. fold (?step x) [0..<h] acc) [0..<j] (Inr temp) = Inr (?grid j)"
    if "j \<le> w" for j
    using that
  proof (induction j)
    case 0
    have "map (\<lambda>y. map (\<lambda>x. temp ! y ! x) [0..<w]) [0..<h] = temp"
      using t by (intro nth_equalityI) (simp_all add: map_nth)
    then show ?case by simp
  next
    case (Suc j)
    then have j: "j < w" by simp
    have len: "length (?grid j) = h" by simp
    have rows: "\<forall>row \<in> set (?grid j). length row = w" by auto
    have "fold (\<lambda>x acc. fold (?step x) [0..<h] acc) [0..<Suc j] (Inr temp) =
          fold (?step j) [0..<h] (Inr (?grid j))"
      using Suc by simp
    also have "\<dots> = Inr (?col j h (?grid j))"
      by (rule inner [OF j le_refl len rows])
    also have "?col j h (?grid j) = ?grid (Suc j)"
      using j by (intro nth_equalityI) (auto simp: nth_list_update less_Suc_eq intro!: nth_equalityI)
    finally show ?case .
  qed
  show ?thesis using outer [of w] by (simp add: displace_loop_def)
qed

lemma has_shape_dims:
  assumes "has_shape h w c t"
  shows "length t = h" "\<forall>row \<in> set t. length row = w"
    "\<And>y x. y < h \<Longrightarrow> x < w \<Longrightarrow> length (t ! y ! x) = c"
proof -
  show "length t = h" "\<forall>row \<in> set t. length row = w"
    using assms by (auto simp: has_shape_def list_all_iff)
  fix y x assume "y < h" "x < w"
  then have "t ! y \<in> set t" using assms by (simp add: has_shape_def)
  with assms have "length (t ! y) = w" "\<forall>px \<in> set (t ! y). length px = c"
    by (auto simp: has_shape_def list_all_iff)
  with \<open>x < w\<close> show "length (t ! y ! x) = c" by simp
qed

lemma tmap_dims:
  assumes "length t = h" "\<forall>row \<in> set t. length row = w"
  shows "length (tmap f t) = h" "\<forall>row \<in> set (tmap f t). length row = w"
  using assms by (auto simp: tmap_def)

lemma rgb_to_grayscale_cases:
  assumes "shape t = (h, w, c)"
  shows "rgb_to_grayscale t =
           (if c \<noteq> 3 then Inl ValueError
            else Inr (map (map (\<lambda>px. [fsum (map2 fmul px [Fin 0.2989, Fin 0.5870, Fin 0.1140])])) t))"
  using assms by (simp add: rgb_to_grayscale_def)

lemma reference_dims:
  assumes s: "shape t = (h, w, c)" and d: "length t = h" "\<forall>row \<in> set t. length row = w"
  shows "case (if c > 2 then rgb_to_grayscale t else Inr t) of
           Inl e \<Rightarrow> e = ValueError
         | Inr ref \<Rightarrow> length ref = h \<and> (\<forall>row \<in> set ref. length row = w)"
  using d by (auto simp: rgb_to_grayscale_cases [OF s])

lemma np_zeros_dims:
  "length (np_zeros (h, w, c)) = h" "\<forall>row \<in> set (np_zeros (h, w, c)). length row = w"
  by (simp_all add: np_zeros_def const_tensor_def)

lemma rectangular_dims:
  assumes "rectangular t" "shape t = (h, w, c)"
  shows "has_shape h w c t"
  using assms by (simp add: rectangular_def)

lemma displace_errors:
  assumes r: "rectangular tensor" and e: "displace tensor d r1 r2 = Inl e"
  shows "e = TypeError \<or> e = ValueError \<or> e = OverflowError"
proof -
  obtain h w c where s: "shape tensor = (h, w, c)" by (cases "shape tensor") auto
  note dims = has_shape_dims(1,2) [OF rectangular_dims [OF r s]]
  show ?thesis
  proof (cases "if c > 2 then rgb_to_grayscale tensor else Inr tensor")
    case (Inl e')
    with reference_dims [OF s dims] have "e' = ValueError" by simp
    with e Inl show ?thesis by (simp add: displace_def s bind_def)
  next
    case (Inr ref)
    with reference_dims [OF s dims] have rd: "length ref = h" "\<forall>row \<in> set ref. length row = w"
      by simp_all
    let ?ref = "tmap (\<lambda>v. fmul v (fmul (Fin 2) d)) (tmap (\<lambda>v. fsub v (Fin (1/2))) ref)"
    let ?bx = "py_trunc (r1 * real w)"
    let ?bo = "py_trunc (r2 * real h)"
    note rd' = tmap_dims [OF tmap_dims [OF rd]]
    have eq: "displace tensor d r1 r2 =
        bind (displace_loop ?ref tensor h w ?bx ?bo (np_zeros (h, w, c)))
             (\<lambda>temp. Inr (convert_image_dtype_float temp))"
      using Inr by (simp add: displace_def s bind_def [of "Inr ref"] Let_def)
    with e have l: "displace_loop ?ref tensor h w ?bx ?bo (np_zeros (h, w, c)) = Inl e"
      by (simp add: bind_def split: sum.splits)
    from displace_loop_invariant [of "np_zeros (h, w, c)" h w ?ref tensor ?bx ?bo, OF np_zeros_dims]
    obtain x y where "x < w" "y < h" "displace_pixel ?ref tensor h w ?bx ?bo x y = Inl e"
      unfolding l by auto
    then show ?thesis
      using displace_pixel_errors [OF rd' dims] by blast
  qed
qed

lemma tmap_nth:
  assumes "y < length t" "x < length (t ! y)"
  shows "tmap f t ! y ! x = map f (t ! y ! x)"
  using assms by (simp add: tmap_def)

lemma grid_of_tensor:
  assumes "length t = h" "\<forall>row \<in> set t. length row = w"
  shows "map (\<lambda>y. map (\<lambda>x. t ! y ! x) [0..<w]) [0..<h] = t"
  using assms by (intro nth_equalityI) (simp_all add: map_nth)

lemma list_of_length_1: "length xs = 1 \<Longrightarrow> \<exists>a. xs = [a]"
  by (cases xs) auto

lemma list_of_length_3: "length xs = 3 \<Longrightarrow> \<exists>a b c. xs = [a, b, c]"
  by (auto simp: numeral_3_eq_3 length_Suc_conv)

lemma zero_reference:
  assumes hs: "has_shape h w c r" and s: "shape r = (h, w, c)" and c: "c = 1 \<or> c = 3"
  shows "\<exists>ref. (if c > 2 then rgb_to_grayscale (of_reals r) else Inr (of_reals r)) = Inr ref \<and>
           length ref = h \<and> (\<forall>row \<in> set ref. length row = w) \<and>
           (\<forall>y<h. \<forall>x<w. tmap (\<lambda>v. fmul v (fmul (Fin 2) (Fin 0)))
                            (tmap (\<lambda>v. fsub v (Fin (1/2))) ref) ! y ! x = [Fin 0])"
proof -
  note d = has_shape_dims [OF hs]
  have so: "shape (of_reals r) = (h, w, c)" by (simp add: of_reals_def s)
  have dims: "length (of_reals r) = h" "\<forall>row \<in> set (of_reals r). length row = w"
    unfolding of_reals_def by (rule tmap_dims [OF d(1,2)])+
  have rowlen: "length (r ! y) = w" if "y < h" for y using d(1,2) that by simp
  from c show ?thesis
  proof
    assume c1: "c = 1"
    have "tmap (\<lambda>v. fmul v (fmul (Fin 2) (Fin 0))) (tmap (\<lambda>v. fsub v (Fin (1/2))) (of_reals r)) ! y ! x
            = [Fin 0]" if "y < h" "x < w" for y x
    proof -
      from d(3) [OF that] c1 obtain a where a: "r ! y ! x = [a]"
        using list_of_length_1 by auto
      have "tmap (\<lambda>v. fmul v (fmul (Fin 2) (Fin 0))) (tmap (\<lambda>v. fsub v (Fin (1/2))) (of_reals r)) ! y ! x
            = map (\<lambda>v. fmul (fsub (Fin v) (Fin (1/2))) (fmul (Fin 2) (Fin 0))) (r ! y ! x)"
        unfolding of_reals_def tmap_tmap using that d(1) rowlen by (intro tmap_nth) simp_all
      then show ?thesis by (simp add: a)
    qed
    with c1 dims show ?thesis by simp
  next
    assume c3: "c = 3"
    let ?gray = "\<lambda>px. [fsum (map2 fmul px [Fin 0.2989, Fin 0.5870, Fin 0.1140])]"
    let ?ref = "map (map ?gray) (of_reals r)"
    have eq: "rgb_to_grayscale (of_reals r) = Inr ?ref"
      using c3 by (simp add: rgb_to_grayscale_cases [OF so])
    have rd: "length ?ref = h" "\<forall>row \<in> set ?ref. length row = w" using dims by auto
    have "tmap (\<lambda>v. fmul v (fmul (Fin 2) (Fin 0))) (tmap (\<lambda>v. fsub v (Fin (1/2))) ?ref) ! y ! x
            = [Fin 0]" if "y < h" "x < w" for y x
    proof -
      from d(3) [OF that] c3 obtain a b e where a: "r ! y ! x = [a, b, e]"
        using list_of_length_3 by blast
      have "?ref ! y ! x = ?gray (map Fin (r ! y ! x))"
        using that d(1) rowlen by (simp add: of_reals_def tmap_def)
      also have "\<dots> = [Fin (a * 0.2989 + b * 0.5870 + e * 0.1140)]"
        by (simp add: a fsum_def)
      finally have g: "?ref ! y ! x = [Fin (a * 0.2989 + b * 0.5870 + e * 0.1140)]" .
      have "tmap (\<lambda>v. fmul v (fmul (Fin 2) (Fin 0))) (tmap (\<lambda>v. fsub v (Fin (1/2))) ?ref) ! y ! x
            = map (\<lambda>v. fmul (fsub v (Fin (1/2))) (fmul (Fin 2) (Fin 0))) (?ref ! y ! x)"
        unfolding tmap_tmap using that rd dims rowlen by (intro tmap_nth) simp_all
      then show ?thesis by (simp only: g) simp
    qed
    with c3 eq rd show ?thesis by simp
  qed
qed

lemma displace_zero:
  assumes it: "image_tensor r" and s: "shape r = (h, w, c)" and c: "c = 1 \<or> c = 3"
  shows "displace (of_reals r) (Fin 0) r1 r2 = Inr (of_reals r)"
proof -
  note hs = image_tensorD(4) [OF it s]
  have so: "shape (of_reals r) = (h, w, c)" by (simp add: of_reals_def s)
  have dims: "length (of_reals r) = h" "\<forall>row \<in> set (of_reals r). length row = w"
    unfolding of_reals_def by (rule tmap_dims [OF has_shape_dims(1,2) [OF hs]])+
  let ?G = "\<lambda>ref. tmap (\<lambda>v. fmul v (fmul (Fin 2) (Fin 0))) (tmap (\<lambda>v. fsub v (Fin (1/2))) ref)"
  obtain ref where ref: "(if c > 2 then rgb_to_grayscale (of_reals r) else Inr (of_reals r)) = Inr ref"
    and rd: "length ref = h" "\<forall>row \<in> set ref. length row = w"
    and z: "\<And>y x. y < h \<Longrightarrow> x < w \<Longrightarrow> ?G ref ! y ! x = [Fin 0]"
    using zero_reference [OF hs s c] by blast
  let ?bx = "py_trunc (r1 * real w)"
  let ?bo = "py_trunc (r2 * real h)"
  note rd' = tmap_dims [OF tmap_dims [OF rd]]
  have px: "displace_pixel (?G ref) (of_reals r) h w ?bx ?bo x y = Inr (of_reals r ! y ! x)"
    if "x < w" "y < h" for x y
  proof -
    have hpos: "0 < h" and wpos: "0 < w" using that by auto
    have i1: "nat ((int y + ?bo) mod int h) < h"
      using py_mod_pos(2,3) [OF hpos] by (simp add: nat_less_iff)
    have i2: "nat ((int x + ?bx) mod int w) < w"
      using py_mod_pos(2,3) [OF wpos] by (simp add: nat_less_iff)
    have zero: "py_int_of_array (map (\<lambda>v. fmul v (Fin q)) [Fin 0]) = Inr 0" for q
      by (simp add: py_int_of_array_def py_trunc_def)
    show ?thesis
      unfolding displace_pixel_eq [OF rd' dims that] z [OF i1 that(1)] z [OF that(2) i2] zero
      using that by (simp add: bind_def)
  qed
  have loop: "displace_loop (?G ref) (of_reals r) h w ?bx ?bo (np_zeros (h, w, c)) =
          Inr (map (\<lambda>y. map (\<lambda>x. of_reals r ! y ! x) [0..<w]) [0..<h])"
    by (rule displace_loop_ok [OF np_zeros_dims]) (rule px)
  have "displace (of_reals r) (Fin 0) r1 r2 =
        bind (displace_loop (?G ref) (of_reals r) h w ?bx ?bo (np_zeros (h, w, c)))
             (\<lambda>temp. Inr (convert_image_dtype_float temp))"
    using ref by (simp add: displace_def so bind_def [of "Inr ref"] Let_def)
  also have "\<dots> = Inr (of_reals r)"
    unfolding loop grid_of_tensor [OF dims]
    by (simp add: bind_def convert_image_dtype_float_def)
  finally show ?thesis .
qed

text \<open>
  Claim C8. For every rectangular tensor, every displacement value and every pair of
  random draws, \<open>displace\<close> never ends with an index error (nor with a division by
  zero in a modulo): at every pixel \<open>(x, y)\<close> of the tensor, and for every reference
  field of the tensor's height and width, the checked reads of the loop body are in
  range, because every row or column index that is computed is a remainder modulo the
  height or the width, which lies between 0 and that dimension.
\<close>

theorem displace_reads_in_bounds:
  assumes "rectangular tensor" "shape tensor = (h, w, c)"
  shows "displace tensor d r1 r2 \<noteq> Inl IndexError \<and>
         displace tensor d r1 r2 \<noteq> Inl ZeroDivisionError \<and>
         (length reference = h \<and> list_all (\<lambda>row. length row = w) reference \<and> x < w \<and> y < h \<longrightarrow>
            displace_pixel reference tensor h w bx bo x y \<noteq> Inl IndexError \<and>
            displace_pixel reference tensor h w bx bo x y \<noteq> Inl ZeroDivisionError) \<and>
         (0 < n \<longrightarrow>
            py_mod a (int n) = Inr (a mod int n) \<and> 0 \<le> a mod int n \<and> a mod int n < int n)"
proof (intro conjI impI)
  show "displace tensor d r1 r2 \<noteq> Inl IndexError"
    using displace_errors [OF assms(1), of d r1 r2 IndexError] by auto
  show "displace tensor d r1 r2 \<noteq> Inl ZeroDivisionError"
    using displace_errors [OF assms(1), of d r1 r2 ZeroDivisionError] by auto
next
  assume a: "length reference = h \<and> list_all (\<lambda>row. length row = w) reference \<and> x < w \<and> y < h"
  note dims = has_shape_dims(1,2) [OF rectangular_dims [OF assms]]
  from a have ref: "length reference = h" "\<forall>row \<in> set reference. length row = w"
    and xy: "x < w" "y < h" by (simp_all add: list_all_iff)
  show "displace_pixel reference tensor h w bx bo x y \<noteq> Inl IndexError"
    using displace_pixel_errors [OF ref dims xy, of bx bo IndexError] by auto
  show "displace_pixel reference tensor h w bx bo x y \<noteq> Inl ZeroDivisionError"
    using displace_pixel_errors [OF ref dims xy, of bx bo ZeroDivisionError] by auto
next
  assume "0 < n"
  then show "py_mod a (int n) = Inr (a mod int n)" "0 \<le> a mod int n" "a mod int n < int n"
    by (rule py_mod_pos)+
qed

theorem displace_reads_in_bounds_witness:
  "rectangular (of_reals [[[0], [1], [1/4]], [[1/2], [3/4], [1/3]]]) \<and>
   shape (of_reals [[[0], [1], [1/4]], [[1/2], [3/4], [1/3]]]) = (2, 3, 1) \<and>
   displace (of_reals [[[0], [1], [1/4]], [[1/2], [3/4], [1/3]]]) (Fin 1) (1/2) (1/2) \<noteq> Inl IndexError \<and>
   displace_pixel (of_reals [[[0], [1], [1/4]], [[1/2], [3/4], [1/3]]])
     (of_reals [[[0], [1], [1/4]], [[1/2], [3/4], [1/3]]]) 2 3 1 1 2 1 \<noteq> Inl IndexError \<and>
   py_mod (- 1) (int 3) = Inr 2"
proof -
  let ?t = "of_reals [[[0], [1], [1/4]], [[1/2], [3/4], [1/3]]]"
  have r: "rectangular ?t" and s: "shape ?t = (2, 3, 1)"
    by (simp_all add: rectangular_def shape_def has_shape_def of_reals_def tmap_def)
  have ref: "length ?t = 2" "list_all (\<lambda>row. length row = 3) ?t"
    by (simp_all add: of_reals_def tmap_def)
  have th: "displace ?t (Fin 1) (1/2) (1/2) \<noteq> Inl IndexError \<and>
         displace ?t (Fin 1) (1/2) (1/2) \<noteq> Inl ZeroDivisionError \<and>
         (length ?t = 2 \<and> list_all (\<lambda>row. length row = 3) ?t \<and> (2::nat) < 3 \<and> (1::nat) < 2 \<longrightarrow>
            displace_pixel ?t ?t 2 3 1 1 2 1 \<noteq> Inl IndexError \<and>
            displace_pixel ?t ?t 2 3 1 1 2 1 \<noteq> Inl ZeroDivisionError) \<and>
         ((0::nat) < 3 \<longrightarrow>
            py_mod (- 1) (int 3) = Inr ((- 1) mod int 3) \<and> 0 \<le> (- 1) mod int 3 \<and> (- 1) mod int 3 < int 3)"
    by (rule displace_reads_in_bounds [OF r s])
  have m: "(- 1) mod int 3 = 2" by simp
  from th ref have "displace ?t (Fin 1) (1/2) (1/2) \<noteq> Inl IndexError"
    and "displace_pixel ?t ?t 2 3 1 1 2 1 \<noteq> Inl IndexError"
    and "py_mod (- 1) (int 3) = Inr 2"
    unfolding m by simp_all
  with r s show ?thesis by (intro conjI)
qed

text \<open>
  Claim C1, as the code has it. With displacement 0 the two scaling steps of
  \<open>displace\<close> turn every finite reference field into zeros; and for an image tensor of
  finite samples with one or three channels every pixel is then gathered from its own
  position: the output is the input itself, whatever the two random draws (and the base
  offsets computed from them) are.
\<close>

theorem displace_zero_is_identity:
  assumes "image_tensor r" "shape r = (h, w, c)" "c = 1 \<or> c = 3"
  shows "tmap (\<lambda>v. fmul v (fmul (Fin 2) (Fin 0))) (tmap (\<lambda>v. fsub v (Fin (1/2))) (of_reals q)) =
           tmap (\<lambda>v. Fin 0) q \<and>
         displace (of_reals r) (Fin 0) r1 r2 = Inr (of_reals r)"
proof
  show "tmap (\<lambda>v. fmul v (fmul (Fin 2) (Fin 0))) (tmap (\<lambda>v. fsub v (Fin (1/2))) (of_reals q)) =
          tmap (\<lambda>v. Fin 0) q"
    by (simp add: of_reals_def tmap_tmap)
  show "displace (of_reals r) (Fin 0) r1 r2 = Inr (of_reals r)"
    by (rule displace_zero [OF assms])
qed

theorem displace_zero_is_identity_witness:
  "image_tensor [[[0::real], [1]]] \<and> shape [[[0::real], [1]]] = (1, 2, 1) \<and>
   displace (of_reals [[[0], [1]]]) (Fin 0) (1/2) 0 = Inr (of_reals [[[0], [1]]]) \<and>
   image_tensor [[[0::real, 1/2, 1], [1, 1, 0]]] \<and> shape [[[0::real, 1/2, 1], [1, 1, 0]]] = (1, 2, 3) \<and>
   displace (of_reals [[[0, 1/2, 1], [1, 1, 0]]]) (Fin 0) (1/2) 0 = Inr (of_reals [[[0, 1/2, 1], [1, 1, 0]]])"
proof -
  have a: "image_tensor [[[0::real], [1]]]" and b: "shape [[[0::real], [1]]] = (1, 2, 1)"
    and c: "image_tensor [[[0::real, 1/2, 1], [1, 1, 0]]]"
    and d: "shape [[[0::real, 1/2, 1], [1, 1, 0]]] = (1, 2, 3)"
    by (simp_all add: image_tensor_def shape_def has_shape_def)
  from displace_zero_is_identity [OF a b, where ?r1.0 = "1/2" and ?r2.0 = 0]
    displace_zero_is_identity [OF c d, where ?r1.0 = "1/2" and ?r2.0 = 0]
  show ?thesis using a b c d by simp
qed

text \<open>
  Claim C1 as stated fails: with displacement 0 the output is not the cyclic shift of the
  input by the base offsets. For the tensor of one row with the pixels 0 and 1 and the
  draws 0.5 and 0, the base offsets are 1 and 0; the output is the input, the shift is
  not.
\<close>

theorem displace_zero_counterexample:
  "py_trunc (1/2 * real 2) = 1 \<and> py_trunc (0 * real 1) = 0 \<and>
   displace (of_reals [[[0], [1]]]) (Fin 0) (1/2) 0 = Inr (of_reals [[[0], [1]]]) \<and>
   cyclic_shift 1 0 (of_reals [[[0], [1]]]) = of_reals [[[1], [0]]] \<and>
   displace (of_reals [[[0], [1]]]) (Fin 0) (1/2) 0 \<noteq> Inr (cyclic_shift 1 0 (of_reals [[[0], [1]]]))"
proof -
  have a: "image_tensor [[[0::real], [1]]]" and b: "shape [[[0::real], [1]]] = (1, 2, 1)"
    by (simp_all add: image_tensor_def shape_def has_shape_def)
  have sh: "cyclic_shift 1 0 (of_reals [[[0], [1]]]) = of_reals [[[1], [0]]]"
    by (simp add: cyclic_shift_def of_reals_def tmap_def shape_def numeral_2_eq_2)
  have ne: "of_reals [[[0], [1]]] \<noteq> of_reals [[[1], [0]]]"
    by (simp add: of_reals_def tmap_def)
  show ?thesis
    using displace_zero [OF a b, of "1/2" 0] sh ne by (simp add: py_trunc_def)
qed

section \<open>Facts about resample and wavelet\<close>

lemma flat_nonempty:
  assumes "image_tensor t"
  shows "flat t \<noteq> []"
proof -
  obtain h w c where s: "shape t = (h, w, c)" by (cases "shape t") auto
  note d = image_tensorD [OF assms s]
  from d(1,4) obtain row rest where t: "t = row # rest" by (cases t) (auto simp: has_shape_def)
  with d(2,4) obtain px prest where row: "row = px # prest"
    by (cases row) (auto simp: has_shape_def)
  with t d(3,4) have "px \<noteq> []" by (auto simp: has_shape_def)
  with t row show ?thesis by (simp add: flat_def)
qed

lemma np_amin_ok: "flat t \<noteq> [] \<Longrightarrow> \<exists>m. np_amin t = Inr m"
  by (cases "flat t") (simp_all add: np_amin_def)

lemma np_amax_ok: "flat t \<noteq> [] \<Longrightarrow> \<exists>m. np_amax t = Inr m"
  by (cases "flat t") (simp_all add: np_amax_def)

lemma resize_shape:
  assumes "0 < rows" "0 < cols" "flat img \<noteq> []"
  shows "\<exists>out. resize ip img (rows, cols, ch) order = Inr out \<and> has_shape rows cols ch out"
proof -
  obtain lo hi where m: "np_amin img = Inr lo" "np_amax img = Inr hi"
    using np_amin_ok [OF assms(3)] np_amax_ok [OF assms(3)] by blast
  show ?thesis
    using assms(1,2)
    by (simp add: resize_def Let_def m bind_def has_shape_grid)
qed

lemma py_trunc_half: "py_trunc (real n * 0.5) = int (n div 2)"
proof -
  have "real n * 0.5 = real n / real 2" by simp
  then have "\<lfloor>real n * 0.5\<rfloor> = int (n div 2)"
    by (simp only: floor_divide_of_nat_eq)
  then show ?thesis by (simp add: py_trunc_def)
qed

lemma py_trunc_half': "py_trunc (real n / 2) = int (n div 2)"
  using py_trunc_half [of n] by simp

lemma fold_np_minimum_const:
  "\<forall>x \<in> set xs. x = Fin v \<Longrightarrow> fold np_minimum xs (Fin v) = Fin v"
  by (induction xs) (simp_all add: np_minimum_def)

lemma fold_np_maximum_const:
  "\<forall>x \<in> set xs. x = Fin v \<Longrightarrow> fold np_maximum xs (Fin v) = Fin v"
  by (induction xs) (simp_all add: np_maximum_def)

lemma set_flat_const: "set (flat (const_tensor h w c v)) \<subseteq> {v}"
  by (auto simp: flat_def const_tensor_def)

lemma np_amin_const:
  assumes "0 < h" "0 < w" "0 < c"
  shows "np_amin (const_tensor h w c (Fin v)) = Inr (Fin v)"
    and "np_amax (const_tensor h w c (Fin v)) = Inr (Fin v)"
proof -
  have "flat (const_tensor h w c (Fin v)) \<noteq> []"
    by (rule flat_nonempty [OF image_tensor_const [OF assms]])
  then obtain x xs where f: "flat (const_tensor h w c (Fin v)) = x # xs"
    by (cases "flat (const_tensor h w c (Fin v))") auto
  with set_flat_const [of h w c "Fin v"] have x: "x = Fin v" and xs: "\<forall>y \<in> set xs. y = Fin v"
    by auto
  show "np_amin (const_tensor h w c (Fin v)) = Inr (Fin v)"
    by (simp add: np_amin_def f x fold_np_minimum_const [OF xs])
  show "np_amax (const_tensor h w c (Fin v)) = Inr (Fin v)"
    by (simp add: np_amax_def f x fold_np_maximum_const [OF xs])
qed

lemma np_clip_const: "s \<noteq> NaN \<Longrightarrow> np_clip s (Fin v) (Fin v) = Fin v"
  by (cases s) (simp_all add: np_clip_def np_maximum_def np_minimum_def)

lemma grid_const:
  assumes "\<And>r c d. r < rows \<Longrightarrow> c < cols \<Longrightarrow> d < ch \<Longrightarrow> f r c d = v"
  shows "map (\<lambda>r. map (\<lambda>c. map (\<lambda>d. f r c d) [0..<ch]) [0..<cols]) [0..<rows] =
         const_tensor rows cols ch v"
proof -
  have "map (\<lambda>r. map (\<lambda>c. map (\<lambda>d. f r c d) [0..<ch]) [0..<cols]) [0..<rows] =
        map (\<lambda>r. map (\<lambda>c. map (\<lambda>d. v) [0..<ch]) [0..<cols]) [0..<rows]"
    using assms by (intro map_cong refl) simp
  then show ?thesis by (simp add: const_tensor_def map_replicate_const)
qed

lemma no_nan_onD:
  assumes "no_nan_on ip order img (rows, cols)" "shape img = (h, w, ch)"
    "r < rows" "c < cols" "d < ch"
  shows "ip order img (rows, cols) r c d \<noteq> NaN"
  using assms by (simp add: no_nan_on_def list_all_iff)

lemma resample_const:
  assumes src: "0 < h" "0 < w" "0 < c" and tgt: "0 < rows" "0 < cols"
    and nn: "no_nan_on ip 3 (const_tensor h w c (Fin v)) (rows, cols)"
  shows "resample ip (const_tensor h w c (Fin v)) cols rows 3 = Inr (const_tensor rows cols c (Fin v))"
proof -
  let ?t = "const_tensor h w c (Fin v)"
  have s: "shape ?t = (h, w, c)" using src by (intro shape_const_tensor)
  have "tmap (\<lambda>x. np_clip x (Fin v) (Fin v))
          (map (\<lambda>r. map (\<lambda>ca. map (\<lambda>d. ip 3 ?t (rows, cols) r ca d) [0..<c]) [0..<cols]) [0..<rows])
        = map (\<lambda>r. map (\<lambda>ca. map (\<lambda>d. np_clip (ip 3 ?t (rows, cols) r ca d) (Fin v) (Fin v)) [0..<c]) [0..<cols]) [0..<rows]"
    by (simp add: tmap_def comp_def)
  also have "\<dots> = const_tensor rows cols c (Fin v)"
    by (rule grid_const) (simp add: np_clip_const no_nan_onD [OF nn s])
  finally have "resize ip ?t (rows, cols, c) 3 = Inr (const_tensor rows cols c (Fin v))"
    using tgt by (simp add: resize_def Let_def np_amin_const [OF src] bind_def)
  then show ?thesis
    by (simp add: resample_def s Let_def bind_def convert_image_dtype_float_def)
qed

text \<open>
  Claim C7. For every image tensor with \<open>c\<close> channels, every positive target width and
  height and every spline order of 0, 1 and 3, \<open>resample\<close> returns an image tensor of
  shape (height, width, c), whatever values the interpolation of the library yields.
\<close>

theorem resample_honours_target:
  assumes "image_tensor t" "shape t = (h0, w0, c)" "0 < width" "0 < height"
    "order = 0 \<or> order = 1 \<or> order = 3"
  shows "\<exists>r. resample ip t width height order = Inr r \<and> shape r = (height, width, c) \<and>
             image_tensor r"
proof -
  obtain out where out: "resize ip t (height, width, c) order = Inr out" "has_shape height width c out"
    using resize_shape [OF assms(4,3) flat_nonempty [OF assms(1)]] by blast
  have "resample ip t width height order = Inr out"
    by (simp add: resample_def assms(2) Let_def out(1) bind_def convert_image_dtype_float_def)
  moreover have "shape out = (height, width, c)"
    using out(2) assms(3,4) by (intro shape_of_has_shape)
  moreover have "image_tensor out"
    using out(2) assms(3,4) image_tensorD(3) [OF assms(1,2)] by (intro image_tensorI)
  ultimately show ?thesis by blast
qed

theorem resample_honours_target_witness:
  "image_tensor (of_reals [[[0], [1]]]) \<and> shape (of_reals [[[0], [1]]]) = (1, 2, 1) \<and>
   (\<exists>r. resample nearest_neighbour (of_reals [[[0], [1]]]) 3 2 1 = Inr r \<and> shape r = (2, 3, 1) \<and>
        image_tensor r)"
proof -
  have a: "image_tensor (of_reals [[[0], [1]]])" and b: "shape (of_reals [[[0], [1]]]) = (1, 2, 1)"
    by (simp_all add: image_tensor_def shape_def has_shape_def of_reals_def tmap_def)
  from resample_honours_target [OF a b, of 3 2 1 nearest_neighbour] a b
  show ?thesis by simp
qed

lemma wavelet_small:
  assumes "0 < h" "0 < w" "h < 2 \<or> w < 2"
  shows "wavelet ip (const_tensor h w c v) = Inl ZeroDivisionError"
proof -
  have s: "shape (const_tensor h w c v) = (h, w, c)"
    using assms(1,2) by (intro shape_const_tensor)
  from assms(3) have "w div 2 = 0 \<or> h div 2 = 0" by auto
  then show ?thesis
    by (auto simp: wavelet_def s py_trunc_half' resample_def resize_def bind_def)
qed

text \<open>
  Claim C9, as the code has it. For every constant tensor of a finite value whose height
  and width are at least 2, \<open>wavelet\<close> returns the all-zero tensor of the same shape,
  provided the interpolation of the library yields a number (not NaN) at every output
  position of the two \<open>resize\<close> calls: each call clips its output to the range of its
  input, which is the constant, so the round trip reproduces the tensor. For a height
  or a width of 1 the half size is 0, and the call ends with an error.
\<close>

theorem wavelet_of_constant:
  assumes "0 < h" "0 < w" "0 < c"
  shows "(2 \<le> h \<and> 2 \<le> w \<and>
          no_nan_on ip 3 (const_tensor h w c (Fin v)) (h div 2, w div 2) \<and>
          no_nan_on ip 3 (const_tensor (h div 2) (w div 2) c (Fin v)) (h, w) \<longrightarrow>
            resample ip (const_tensor h w c (Fin v)) (w div 2) (h div 2) 3 =
              Inr (const_tensor (h div 2) (w div 2) c (Fin v)) \<and>
            resample ip (const_tensor (h div 2) (w div 2) c (Fin v)) w h 3 =
              Inr (const_tensor h w c (Fin v)) \<and>
            wavelet ip (const_tensor h w c (Fin v)) = Inr (const_tensor h w c (Fin 0))) \<and>
         (h < 2 \<or> w < 2 \<longrightarrow>
            wavelet ip (const_tensor h w c (Fin v)) = Inl ZeroDivisionError)"
proof (intro conjI impI)
  let ?t = "const_tensor h w c (Fin v)"
  assume big: "2 \<le> h \<and> 2 \<le> w \<and>
          no_nan_on ip 3 ?t (h div 2, w div 2) \<and>
          no_nan_on ip 3 (const_tensor (h div 2) (w div 2) c (Fin v)) (h, w)"
  then have pos: "0 < h div 2" "0 < w div 2" by simp_all
  from big have nn: "no_nan_on ip 3 ?t (h div 2, w div 2)"
    "no_nan_on ip 3 (const_tensor (h div 2) (w div 2) c (Fin v)) (h, w)" by simp_all
  have s: "shape ?t = (h, w, c)" using assms by (intro shape_const_tensor)
  show down: "resample ip ?t (w div 2) (h div 2) 3 = Inr (const_tensor (h div 2) (w div 2) c (Fin v))"
    by (rule resample_const [OF assms pos nn(1)])
  show up: "resample ip (const_tensor (h div 2) (w div 2) c (Fin v)) w h 3 = Inr ?t"
    by (rule resample_const [OF pos assms(3) assms(1,2) nn(2)])
  have "wavelet ip ?t = Inr (tmap2 fsub ?t ?t)"
    by (simp add: wavelet_def s py_trunc_half' down up bind_def)
  also have "tmap2 fsub ?t ?t = const_tensor h w c (Fin 0)"
    by (simp add: tmap2_const [OF has_shape_const])
  finally show "wavelet ip ?t = Inr (const_tensor h w c (Fin 0))" .
next
  assume "h < 2 \<or> w < 2"
  then show "wavelet ip (const_tensor h w c (Fin v)) = Inl ZeroDivisionError"
    by (rule wavelet_small [OF assms(1,2)])
qed

theorem wavelet_of_constant_witness:
  "no_nan_on nearest_neighbour 3 (const_tensor 2 2 1 (Fin (1/2))) (2 div 2, 2 div 2) \<and>
   no_nan_on nearest_neighbour 3 (const_tensor (2 div 2) (2 div 2) 1 (Fin (1/2))) (2, 2) \<and>
   wavelet nearest_neighbour (const_tensor 2 2 1 (Fin (1/2))) = Inr (const_tensor 2 2 1 (Fin 0)) \<and>
   wavelet nearest_neighbour (const_tensor 1 3 1 (Fin (1/2))) = Inl ZeroDivisionError"
proof -
  have a: "no_nan_on nearest_neighbour 3 (const_tensor 2 2 1 (Fin (1/2))) (2 div 2, 2 div 2)"
    by (simp add: no_nan_on_def nearest_neighbour_def shape_const_tensor)
       (simp add: const_tensor_def numeral_2_eq_2)
  have b: "no_nan_on nearest_neighbour 3 (const_tensor (2 div 2) (2 div 2) 1 (Fin (1/2))) (2, 2)"
    by (simp add: no_nan_on_def nearest_neighbour_def shape_const_tensor)
       (simp add: const_tensor_def numeral_2_eq_2)
  from wavelet_of_constant [of 2 2 1 nearest_neighbour "1/2"] a b
  have "wavelet nearest_neighbour (const_tensor 2 2 1 (Fin (1/2))) = Inr (const_tensor 2 2 1 (Fin 0))"
    by simp
  moreover from wavelet_of_constant [of 1 3 1 nearest_neighbour "1/2"]
  have "wavelet nearest_neighbour (const_tensor 1 3 1 (Fin (1/2))) = Inl ZeroDivisionError"
    by simp
  ultimately show ?thesis using a b by (intro conjI)
qed

text \<open>
  Claim C9 as stated fails on a constant tensor of height or width 1: half of 1 is
  truncated to 0, and \<open>resize\<close> is asked for an empty target.
\<close>

theorem wavelet_of_constant_counterexample:
  "image_tensor (const_tensor 1 1 1 (Fin (1/2))) \<and>
   wavelet nearest_neighbour (const_tensor 1 1 1 (Fin (1/2))) = Inl ZeroDivisionError"
  by (simp add: image_tensor_const wavelet_def shape_const_tensor py_trunc_def resample_def
      resize_def bind_def)

end
